theory Spec2Isabelle
  imports Complex_Main "HOL-Library.Signed_Division"
begin

section \<open>The EQ500X mount driver: mechanical coordinates and the centering loop\<close>

text \<open>
  This theory embeds \<^verbatim>\<open>drivers/telescope/eq500x.cpp\<close>: the mechanical point
  (\<^verbatim>\<open>EQ500X::MechanicalPoint\<close>) with its text codec, the table of slew rates, and
  the two operations of the controller that drive a slew, \<^verbatim>\<open>Goto\<close> and
  \<^verbatim>\<open>ReadScopeStatus\<close>.

  Conventions. The value of a C \<^verbatim>\<open>double\<close> is a \<^typ>\<open>real\<close>. The two setters of the
  mechanical point round their sum and their product to the nearest double, as the
  processor does (\<open>to_double\<close> below); the distances, the table of slew rates and the hour
  angle of a goto are computed with the exact arithmetic. A C \<^verbatim>\<open>long\<close> or \<^verbatim>\<open>int\<close> is an
  \<^typ>\<open>int\<close>; every tick count the driver computes from a setter or from a mount reply is
  below \<open>2 ^ 21\<close> in magnitude, far from the range of either type. Integer division and
  remainder truncate towards zero, as in C: they are \<open>sdiv\<close> and \<open>smod\<close>. A C string is a
  \<^typ>\<open>string\<close>, read up to its first NUL.
\<close>

subsection \<open>C library arithmetic\<close>

text \<open>Truncation towards zero, as the quotient of \<^verbatim>\<open>fmod\<close> takes it.\<close>

definition trunc :: "real \<Rightarrow> int" where
  "trunc x = (if 0 \<le> x then \<lfloor>x\<rfloor> else - \<lfloor>- x\<rfloor>)"

text \<open>\<^verbatim>\<open>std::fmod(x, y)\<close>: \<open>x - n * y\<close> with \<open>n\<close> the truncated quotient, so the result has
  the sign of \<open>x\<close>.\<close>

definition fmod :: "real \<Rightarrow> real \<Rightarrow> real" where
  "fmod x y = x - y * of_int (trunc (x / y))"

text \<open>\<^verbatim>\<open>std::lround\<close>: to the nearest integer, halfway cases away from zero.\<close>

definition lround :: "real \<Rightarrow> int" where
  "lround x = (if 0 \<le> x then \<lfloor>x + 1 / 2\<rfloor> else - \<lfloor>- x + 1 / 2\<rfloor>)"

subsection \<open>Rounding to a double\<close>

text \<open>To the nearest integer, halfway cases to the even one.\<close>

definition rne :: "real \<Rightarrow> int" where
  "rne x = (let n = \<lfloor>x\<rfloor>; r = x - of_int n
            in if r < 1 / 2 then n else if 1 / 2 < r then n + 1
               else if even n then n else n + 1)"

text \<open>The binary exponent of a positive number: the \<open>e\<close> with \<open>2 ^ e \<le> a < 2 ^ (e + 1)\<close>,
  found by halving or doubling \<open>a\<close> until it is in \<open>[1, 2)\<close>.\<close>

function binade :: "real \<Rightarrow> int" where
  "binade a = (if a \<le> 0 then 0
               else if 2 \<le> a then binade (a / 2) + 1
               else if a < 1 then binade (a * 2) - 1
               else 0)"
  by pat_completeness auto
termination
proof (relation "measure (\<lambda>a. 2 * nat \<lceil>1 / a\<rceil> + nat \<lfloor>a\<rfloor>)")
  show "wf (measure (\<lambda>a. 2 * nat \<lceil>1 / a\<rceil> + nat \<lfloor>a\<rfloor>))" by simp
next
  fix a :: real
  assume a: "\<not> a \<le> 0" "2 \<le> a"
  have 1: "\<lceil>1 / (a / 2)\<rceil> = 1" using a by (simp add: ceiling_eq_iff)
  have 2: "\<lceil>1 / a\<rceil> = 1" using a by (simp add: ceiling_eq_iff)
  have 3: "\<lfloor>a / 2\<rfloor> < \<lfloor>a\<rfloor>" using a by linarith
  have 4: "0 < \<lfloor>a\<rfloor>" using a by linarith
  show "(a / 2, a) \<in> measure (\<lambda>a. 2 * nat \<lceil>1 / a\<rceil> + nat \<lfloor>a\<rfloor>)"
    using 3 4 unfolding in_measure 1 2 by linarith
next
  fix a :: real
  assume a: "\<not> a \<le> 0" "\<not> 2 \<le> a" "a < 1"
  have f: "\<lfloor>a\<rfloor> = 0" using a by (simp add: floor_eq_iff)
  show "(a * 2, a) \<in> measure (\<lambda>a. 2 * nat \<lceil>1 / a\<rceil> + nat \<lfloor>a\<rfloor>)"
  proof (cases "a < 1 / 2")
    case True
    then have g: "\<lfloor>a * 2\<rfloor> = 0" using a by (simp add: floor_eq_iff)
    define y where "y = 1 / a"
    have y: "1 < y" using a by (simp add: y_def)
    have half: "1 / (a * 2) = y / 2" by (simp add: y_def)
    have c: "y \<le> of_int \<lceil>y\<rceil>" by (rule le_of_int_ceiling)
    have "1 < \<lceil>y\<rceil>" using y by (simp only: less_ceiling_iff of_int_1)
    then have "2 \<le> \<lceil>y\<rceil>" by linarith
    then have "(of_int 2 :: real) \<le> of_int \<lceil>y\<rceil>" by (simp only: of_int_le_iff)
    then have t: "(2 :: real) \<le> of_int \<lceil>y\<rceil>" by simp
    have "y / 2 \<le> of_int \<lceil>y\<rceil> - 1" using c t by linarith
    then have "y / 2 \<le> of_int (\<lceil>y\<rceil> - 1)" by simp
    then have "\<lceil>y / 2\<rceil> \<le> \<lceil>y\<rceil> - 1" by (simp only: ceiling_le_iff)
    then have "\<lceil>1 / (a * 2)\<rceil> < \<lceil>1 / a\<rceil>" unfolding half by (simp add: y_def)
    moreover have "0 < \<lceil>1 / a\<rceil>" using a by simp
    ultimately show ?thesis unfolding in_measure f g by linarith
  next
    case False
    then have g: "\<lfloor>a * 2\<rfloor> = 1" using a by (simp add: floor_eq_iff)
    have h: "\<lceil>1 / (a * 2)\<rceil> = 1" using a False by (simp add: ceiling_eq_iff field_simps)
    have "1 < 1 / a" using a by simp
    then have "2 \<le> \<lceil>1 / a\<rceil>" by linarith
    then show ?thesis unfolding in_measure f g h by linarith
  qed
qed

declare binade.simps [simp del]

text \<open>The double nearest to a real number, halfway cases to the even significand: the
  rounding of IEEE 754 binary64 that every sum and product of doubles goes through. The
  doubles around \<open>x\<close> are the multiples of \<open>2 ^ q\<close>, where \<open>q\<close> leaves 53 bits to the
  significand and is no less than \<open>-1074\<close>, the exponent of the subnormal numbers. There is
  no largest double here: the sums and products of the driver, of a double and a constant
  and of a remainder and 3600, never round beyond it.\<close>

definition to_double :: "real \<Rightarrow> real" where
  "to_double x = (let q = max (binade \<bar>x\<bar> - 52) (- 1074)
                  in of_int (rne (x / 2 powi q)) * 2 powi q)"

subsection \<open>C library text functions\<close>

definition NUL :: char where
  "NUL = char_of (0 :: nat)"

definition isdigit :: "char \<Rightarrow> bool" where
  "isdigit c = (48 \<le> (of_char c :: nat) \<and> (of_char c :: nat) \<le> 57)"

text \<open>\<^verbatim>\<open>isspace\<close> in the C locale: space, and the controls from tab to carriage return.\<close>

definition isspace :: "char \<Rightarrow> bool" where
  "isspace c = ((of_char c :: nat) = 32 \<or> (9 \<le> (of_char c :: nat) \<and> (of_char c :: nat) \<le> 13))"

definition digit_val :: "char \<Rightarrow> int" where
  "digit_val c = of_char c - 48"

text \<open>The character \<^verbatim>\<open>'0' + n\<close>.\<close>

definition digit_char :: "int \<Rightarrow> char" where
  "digit_char n = char_of (48 + n)"

text \<open>The decimal digits of a natural number, most significant first.\<close>

function dec_digits :: "nat \<Rightarrow> string" where
  "dec_digits n = (if n < 10 then [digit_char (int n)]
                   else dec_digits (n div 10) @ [digit_char (int (n mod 10))])"
  by pat_completeness auto
termination
  by (relation "measure id") auto

declare dec_digits.simps [simp del]

text \<open>The conversion \<^verbatim>\<open>%02d\<close> of \<^verbatim>\<open>snprintf\<close>: at least two characters, padded with
  zeros after the sign.\<close>

definition fmt_02d :: "int \<Rightarrow> string" where
  "fmt_02d n =
     (if n < 0 then CHR ''-'' # dec_digits (nat (- n))
      else replicate (2 - length (dec_digits (nat n))) CHR ''0'' @ dec_digits (nat n))"

text \<open>The value of a run of digits, read left to right from an accumulator.\<close>

fun digits_val :: "int \<Rightarrow> string \<Rightarrow> int" where
  "digits_val acc [] = acc"
| "digits_val acc (c # cs) = (if isdigit c then digits_val (acc * 10 + digit_val c) cs else acc)"

text \<open>\<^verbatim>\<open>atoi\<close>: white space, an optional sign, then digits up to the first character that
  is none; 0 when there is no digit. NUL is neither, so the conversion stops there.\<close>

definition atoi :: "string \<Rightarrow> int" where
  "atoi s =
     (case dropWhile isspace s of
        [] \<Rightarrow> 0
      | c # r \<Rightarrow>
          if c = CHR ''-'' then - digits_val 0 r
          else if c = CHR ''+'' then digits_val 0 r
          else digits_val 0 (c # r))"

text \<open>The conversion \<^verbatim>\<open>%02d\<close> of \<^verbatim>\<open>sscanf\<close>: the zero belongs to the field width,
  which is 2. White space is skipped and is not counted; then at most two characters are
  read, an optional sign and decimal digits, at least one digit. The result is the value
  and the rest of the input, or \<open>None\<close> on a matching failure.\<close>

definition scan_d2 :: "string \<Rightarrow> (int \<times> string) option" where
  "scan_d2 s =
     (case dropWhile isspace s of
        [] \<Rightarrow> None
      | c # r \<Rightarrow>
          if c = CHR ''-'' \<or> c = CHR ''+'' then
            (case r of
               [] \<Rightarrow> None
             | d # r' \<Rightarrow>
                 if isdigit d then Some ((if c = CHR ''-'' then - 1 else 1) * digit_val d, r')
                 else None)
          else if isdigit c then
            (case r of
               [] \<Rightarrow> Some (digit_val c, [])
             | d # r' \<Rightarrow>
                 if isdigit d then Some (digit_val c * 10 + digit_val d, r')
                 else Some (digit_val c, r))
          else None)"

text \<open>A literal character of a \<^verbatim>\<open>sscanf\<close> format: it must be the next character.\<close>

definition scan_lit :: "char \<Rightarrow> string \<Rightarrow> string option" where
  "scan_lit c s = (case s of [] \<Rightarrow> None | x # r \<Rightarrow> if x = c then Some r else None)"

text \<open>\<^verbatim>\<open>sscanf(buf, "%02d:%02d:%02d", ...)\<close>: the values assigned, in order. Their number
  is the return value of \<^verbatim>\<open>sscanf\<close> (an input that ends before the first conversion
  returns \<^verbatim>\<open>EOF\<close> there, which is no 3 either).\<close>

definition sscanf_d2_d2_d2 :: "string \<Rightarrow> int list" where
  "sscanf_d2_d2_d2 buf =
     (case scan_d2 buf of
        None \<Rightarrow> []
      | Some (h, r1) \<Rightarrow>
          (case scan_lit CHR '':'' r1 of
             None \<Rightarrow> [h]
           | Some r2 \<Rightarrow>
               (case scan_d2 r2 of
                  None \<Rightarrow> [h]
                | Some (m, r3) \<Rightarrow>
                    (case scan_lit CHR '':'' r3 of
                       None \<Rightarrow> [h, m]
                     | Some r4 \<Rightarrow>
                         (case scan_d2 r4 of
                            None \<Rightarrow> [h, m]
                          | Some (s, r5) \<Rightarrow> [h, m, s])))))"

text \<open>\<^verbatim>\<open>strncpy(b, buf, n)\<close> into an array of \<open>n\<close> characters: the string up to its NUL,
  cut at \<open>n\<close>, the rest of the array filled with NUL.\<close>

definition strncpy :: "string \<Rightarrow> nat \<Rightarrow> string" where
  "strncpy buf n =
     take n (takeWhile (\<lambda>c. c \<noteq> NUL) buf)
       @ replicate (n - length (take n (takeWhile (\<lambda>c. c \<noteq> NUL) buf))) NUL"

text \<open>The C string that starts at index \<open>k\<close> of an array.\<close>

definition c_str_at :: "string \<Rightarrow> nat \<Rightarrow> string" where
  "c_str_at b k = takeWhile (\<lambda>c. c \<noteq> NUL) (drop k b)"

subsection \<open>The mechanical point\<close>

text \<open>\<^verbatim>\<open>INDI::Telescope::TelescopePierSide\<close>, declared by the framework.\<close>

datatype TelescopePierSide = PIER_UNKNOWN | PIER_WEST | PIER_EAST

text \<open>The fields \<^verbatim>\<open>_pierSide\<close>, \<^verbatim>\<open>_RAm\<close> (seconds of time) and \<^verbatim>\<open>_DECm\<close>
  (seconds of arc) of \<^verbatim>\<open>EQ500X::MechanicalPoint\<close>.\<close>

record MechanicalPoint =
  m_pierSide :: TelescopePierSide
  m_RAm :: int
  m_DECm :: int

definition ONEDEGREE :: real where
  "ONEDEGREE = 1"

definition ARCMINUTE :: real where
  "ARCMINUTE = ONEDEGREE / 60"

definition ARCSECOND :: real where
  "ARCSECOND = ONEDEGREE / 3600"

definition RA_GRANULARITY :: real where
  "RA_GRANULARITY = of_int (lround ((15 * ARCSECOND) * 3600)) / 3600"

definition DEC_GRANULARITY :: real where
  "DEC_GRANULARITY = of_int (lround ((1 * ARCSECOND) * 3600)) / 3600"

text \<open>The getters \<^verbatim>\<open>RAm()\<close> and \<^verbatim>\<open>DECm()\<close>.\<close>

definition RAm_get :: "MechanicalPoint \<Rightarrow> real" where
  "RAm_get p = of_int (m_RAm p) / 3600"

definition DECm_get :: "MechanicalPoint \<Rightarrow> real" where
  "DECm_get p = of_int (m_DECm p) / 3600"

text \<open>The setters \<^verbatim>\<open>RAm(double)\<close> and \<^verbatim>\<open>DECm(double)\<close>; each returns the getter's
  value of the updated point, which is read off the result here. The sum with the period
  and the product with 3600 are rounded to a double; the remainder of two doubles is a
  double, which \<^verbatim>\<open>fmod\<close> returns as it is.\<close>

definition RAm_set :: "MechanicalPoint \<Rightarrow> real \<Rightarrow> MechanicalPoint" where
  "RAm_set p v = p\<lparr>m_RAm := lround (to_double (fmod (to_double (v + 24)) 24 * 3600))\<rparr>"

definition DECm_set :: "MechanicalPoint \<Rightarrow> real \<Rightarrow> MechanicalPoint" where
  "DECm_set p v = p\<lparr>m_DECm := lround (to_double (fmod (to_double (v + 256)) 256 * 3600))\<rparr>"

definition setPierSide :: "MechanicalPoint \<Rightarrow> TelescopePierSide \<Rightarrow> MechanicalPoint" where
  "setPierSide p side = p\<lparr>m_pierSide := side\<rparr>"

text \<open>\<^verbatim>\<open>toStringRA(buf, buf_length)\<close>: the text written, or \<open>None\<close> for the null pointer
  returned when \<^verbatim>\<open>snprintf\<close> does not fit the buffer.\<close>

definition toStringRA :: "MechanicalPoint \<Rightarrow> nat \<Rightarrow> string option" where
  "toStringRA p buf_length =
     (let hours = ((if m_pierSide p = PIER_WEST then 12 else 0) + 24 + m_RAm p sdiv 3600) smod 24;
          minutes = (m_RAm p sdiv 60) smod 60;
          seconds = m_RAm p smod 60;
          out = fmt_02d hours @ '':'' @ fmt_02d minutes @ '':'' @ fmt_02d seconds;
          written = int (length out)
      in if 0 < written \<and> written < int buf_length then Some out else None)"

text \<open>\<^verbatim>\<open>parseStringRA(buf, buf_length)\<close>: the returned flag (\<open>True\<close> is the error) and
  the point afterwards. The first test compares with
  \<^verbatim>\<open>sizeof(MechanicalPoint_RA_Format-1)\<close>, the size of a pointer: 8.\<close>

definition parseStringRA :: "MechanicalPoint \<Rightarrow> string \<Rightarrow> nat \<Rightarrow> bool \<times> MechanicalPoint" where
  "parseStringRA p buf buf_length =
     (if buf_length < 8 then (True, p)
      else
        (case sscanf_d2_d2_d2 buf of
           [hours, minutes, seconds] \<Rightarrow>
             (False,
              p\<lparr>m_RAm :=
                  ((if m_pierSide p = PIER_WEST then - 12 * 3600 else 0) + 24 * 3600
                    + (hours smod 24) * 3600 + minutes * 60 + seconds) smod (24 * 3600)\<rparr>)
         | _ \<Rightarrow> (True, p)))"

text \<open>The \<^verbatim>\<open>switch\<close> of \<^verbatim>\<open>toStringDEC\<close> on \<^verbatim>\<open>abs(degrees)/10\<close>; \<open>None\<close> is its
  default case, which returns the null pointer.\<close>

definition high_digit_switch :: "int \<Rightarrow> char option" where
  "high_digit_switch t =
     (if t = 10 then Some CHR '':''
      else if t = 11 then Some CHR '';''
      else if t = 12 then Some CHR ''<''
      else if t = 13 then Some CHR ''=''
      else if t = 14 then Some CHR ''>''
      else if t = 15 then Some CHR ''?''
      else if t = 16 then Some CHR ''@''
      else if t = 17 then Some CHR ''A''
      else if t = 18 then Some CHR ''B''
      else if t = 19 then Some CHR ''C''
      else if t = 20 then Some CHR ''D''
      else if t = 21 then Some CHR ''E''
      else if t = 22 then Some CHR ''F''
      else if t = 23 then Some CHR ''G''
      else if t = 24 then Some CHR ''H''
      else if t = 25 then Some CHR ''I''
      else None)"

definition toStringDEC :: "MechanicalPoint \<Rightarrow> nat \<Rightarrow> string option" where
  "toStringDEC p buf_length =
     (let value = (if m_pierSide p = PIER_EAST then 90 * 3600 - m_DECm p else m_DECm p - 90 * 3600);
          degrees = (value sdiv 3600) smod 256;
          minutes = (\<bar>value\<bar> sdiv 60) smod 60;
          seconds = \<bar>value\<bar> smod 60
      in if degrees < - 255 \<or> 255 < degrees then None
         else
           (case (if - 100 < degrees \<and> degrees < 100 then Some (digit_char (\<bar>degrees\<bar> sdiv 10))
                  else high_digit_switch (\<bar>degrees\<bar> sdiv 10)) of
              None \<Rightarrow> None
            | Some high_digit \<Rightarrow>
                (let low_digit = digit_char (\<bar>degrees\<bar> smod 10);
                     out = [if 0 \<le> degrees then CHR ''+'' else CHR ''-'', high_digit, low_digit]
                             @ '':'' @ fmt_02d minutes @ '':'' @ fmt_02d seconds;
                     written = int (length out)
                 in if 0 < written \<and> written < int buf_length then Some out else None)))"

text \<open>The \<^verbatim>\<open>switch\<close> of \<^verbatim>\<open>parseStringDEC\<close> on the high digit: the two characters
  that replace the sign and the high digit.\<close>

definition high_digit_decode :: "char \<Rightarrow> char \<times> char" where
  "high_digit_decode c =
     (if c = CHR '':'' then (CHR ''1'', CHR ''0'')
      else if c = CHR '';'' then (CHR ''1'', CHR ''1'')
      else if c = CHR ''<'' then (CHR ''1'', CHR ''2'')
      else if c = CHR ''='' then (CHR ''1'', CHR ''3'')
      else if c = CHR ''>'' then (CHR ''1'', CHR ''4'')
      else if c = CHR ''?'' then (CHR ''1'', CHR ''5'')
      else if c = CHR ''@'' then (CHR ''1'', CHR ''6'')
      else if c = CHR ''A'' then (CHR ''1'', CHR ''7'')
      else if c = CHR ''B'' then (CHR ''1'', CHR ''8'')
      else if c = CHR ''C'' then (CHR ''1'', CHR ''9'')
      else if c = CHR ''D'' then (CHR ''2'', CHR ''0'')
      else if c = CHR ''E'' then (CHR ''2'', CHR ''1'')
      else if c = CHR ''F'' then (CHR ''2'', CHR ''2'')
      else if c = CHR ''G'' then (CHR ''2'', CHR ''3'')
      else if c = CHR ''H'' then (CHR ''2'', CHR ''4'')
      else if c = CHR ''I'' then (CHR ''2'', CHR ''5'')
      else (CHR ''0'', c))"

text \<open>\<^verbatim>\<open>parseStringDEC(buf, buf_length)\<close>. The array \<^verbatim>\<open>b\<close> of ten characters is read
  through \<^verbatim>\<open>struct _DecValues\<close>: \<^verbatim>\<open>degrees\<close> at index 0, \<^verbatim>\<open>minutes\<close> at 4,
  \<^verbatim>\<open>seconds\<close> at 7, each closed by the NUL written at indices 3, 6 and 9.\<close>

definition parseStringDEC :: "MechanicalPoint \<Rightarrow> string \<Rightarrow> nat \<Rightarrow> bool \<times> MechanicalPoint" where
  "parseStringDEC p buf buf_length =
     (if buf_length < 9 then (True, p)
      else
        (let b = strncpy buf 10
         in if (of_char (b ! 1) :: nat) < of_char CHR ''0'' \<or> (of_char CHR ''I'' :: nat) < of_char (b ! 1)
            then (True, p)
            else
              (let sgn = (if b ! 0 = CHR ''-'' then - 1 else 1 :: int);
                   hd2 = high_digit_decode (b ! 1);
                   b' = b[0 := fst hd2, 1 := snd hd2, 3 := NUL, 6 := NUL, 9 := NUL];
                   orientation = (if m_pierSide p = PIER_EAST then - 1 else 1 :: int)
               in (False,
                   p\<lparr>m_DECm :=
                       90 * 3600 + orientation * sgn
                         * (atoi (c_str_at b' 0) * 3600 + atoi (c_str_at b' 4) * 60
                             + atoi (c_str_at b' 7))\<rparr>))))"

text \<open>The distances \<^verbatim>\<open>RA_degrees_to\<close> and \<^verbatim>\<open>DEC_degrees_to\<close>. The first keeps the
  source's two tests in sequence, each on the value the one before left.\<close>

definition RA_delta_ticks :: "MechanicalPoint \<Rightarrow> MechanicalPoint \<Rightarrow> int" where
  "RA_delta_ticks a b =
     (let delta = m_RAm b - m_RAm a;
          delta = (if delta > 12 * 3600 then delta - 24 * 3600 else delta);
          delta = (if delta < - 12 * 3600 then delta + 24 * 3600 else delta)
      in delta)"

definition RA_degrees_to :: "MechanicalPoint \<Rightarrow> MechanicalPoint \<Rightarrow> real" where
  "RA_degrees_to a b = of_int (RA_delta_ticks a b * 15) / 3600"

definition DEC_degrees_to :: "MechanicalPoint \<Rightarrow> MechanicalPoint \<Rightarrow> real" where
  "DEC_degrees_to a b = of_int (m_DECm b - m_DECm a) / 3600"

subsection \<open>The table of slew rates\<close>

record adjustment =
  slew_rate :: string
  epsilon :: real
  distance :: real
  polling_interval :: int

definition adjustments :: "adjustment list" where
  "adjustments =
     [\<lparr>slew_rate = '':RG#'', epsilon = 1 * ARCSECOND, distance = (7 / 10) * ARCMINUTE,
        polling_interval = 100\<rparr>,
      \<lparr>slew_rate = '':RC#'', epsilon = (7 / 10) * ARCMINUTE, distance = 10 * ARCMINUTE,
        polling_interval = 200\<rparr>,
      \<lparr>slew_rate = '':RM#'', epsilon = 10 * ARCMINUTE, distance = 5 * ONEDEGREE,
        polling_interval = 500\<rparr>,
      \<lparr>slew_rate = '':RS#'', epsilon = 5 * ONEDEGREE, distance = 10 * ONEDEGREE,
        polling_interval = 500\<rparr>,
      \<lparr>slew_rate = '':RS#'', epsilon = 10 * ONEDEGREE, distance = 360 * ONEDEGREE,
        polling_interval = 1000\<rparr>]"

definition MAX_CONVERGENCE_LOOPS :: int where
  "MAX_CONVERGENCE_LOOPS = 144"

text \<open>The loop of assertions in the constructor, from index \<open>i\<close> on: \<open>True\<close> when none
  of them fails.\<close>

function constructor_asserts :: "adjustment list \<Rightarrow> nat \<Rightarrow> bool" where
  "constructor_asserts tbl i =
     (if i < length tbl - 1
      then epsilon (tbl ! (i + 1)) \<le> distance (tbl ! i) \<and> constructor_asserts tbl (i + 1)
      else True)"
  by pat_completeness auto
termination
  by (relation "measure (\<lambda>(tbl, i). length tbl - i)") auto

text \<open>The loop that chooses the slew rate of an axis: the index of the first entry whose
  \<open>distance\<close> covers the delta. The source bounds the loop by the size of the table in
  bytes; reading past the last entry is undefined there, and the loop ends here with the
  null pointer (\<open>None\<close>), which the assertion after the loop reports.\<close>

fun choose_adjust :: "adjustment list \<Rightarrow> nat \<Rightarrow> real \<Rightarrow> nat option" where
  "choose_adjust [] i abs_delta = None"
| "choose_adjust (a # tbl) i abs_delta =
     (if abs_delta \<le> distance a then Some i else choose_adjust tbl (Suc i) abs_delta)"

subsection \<open>The controller\<close>

text \<open>\<^verbatim>\<open>INDI::Telescope::TelescopeStatus\<close>, declared by the framework.\<close>

datatype TelescopeStatus = SCOPE_IDLE | SCOPE_SLEWING | SCOPE_TRACKING | SCOPE_PARKING | SCOPE_PARKED

text \<open>What a call leaves outside the driver, in order: a string given to
  \<^verbatim>\<open>sendCmd\<close>, a call of \<^verbatim>\<open>abortSlew\<close>, a call of \<^verbatim>\<open>slewError\<close>. The
  publication of properties and the logs are not kept.\<close>

datatype event = SendCmd string | AbortSlew | SlewError

text \<open>The state of the driver that \<^verbatim>\<open>Goto\<close> and \<^verbatim>\<open>ReadScopeStatus\<close> use. The last
  five fields are the static locals of \<^verbatim>\<open>ReadScopeStatus\<close>; \<open>previous_adjustment\<close> is
  an index of the table, \<open>None\<close> for the null pointer.\<close>

record EQ500X =
  isConnected :: bool
  TrackState :: TelescopeStatus
  pierSide :: TelescopePierSide
  POLLMS :: int
  countdown :: int
  currentPosition :: MechanicalPoint
  targetPosition :: MechanicalPoint
  trace :: "event list"
  previous_adjustment :: "nat option"
  east :: bool
  west :: bool
  north :: bool
  south :: bool

text \<open>What one call reads from the framework and from the serial port of a connected
  mount (\<^verbatim>\<open>isSimulation()\<close> is false): the sidereal time, whether the coordinates
  property is busy, the replies of the mount (\<open>None\<close> when the read fails) and whether
  \<^verbatim>\<open>abortSlew\<close> or the write of \<^verbatim>\<open>sendCmd\<close> fails.\<close>

record framework =
  LST :: real
  EqNP_busy :: bool
  abort_fails :: bool
  write_fails :: bool
  reply_set :: "string option"
  reply_GR :: "string option"
  reply_GD :: "string option"

text \<open>A null pointer given to \<^verbatim>\<open>%s\<close> prints as glibc prints it.\<close>

definition str_or_null :: "string option \<Rightarrow> string" where
  "str_or_null r = (case r of None \<Rightarrow> ''(null)'' | Some t \<Rightarrow> t)"

text \<open>\<^verbatim>\<open>setTargetPosition\<close>: the error flag and the command given to \<^verbatim>\<open>sendCmd\<close>,
  which \<^verbatim>\<open>snprintf\<close> cuts to the 25 characters of its buffer.\<close>

definition setTargetPosition :: "framework \<Rightarrow> MechanicalPoint \<Rightarrow> bool \<times> string" where
  "setTargetPosition fw p =
     (let CmdString =
            take 25 ('':Sr'' @ str_or_null (toStringRA p 9) @ ''#:Sd''
                      @ str_or_null (toStringDEC p 10) @ ''#'')
      in if write_fails fw then (True, CmdString)
         else
           (case reply_set fw of
              None \<Rightarrow> (True, CmdString)
            | Some buf \<Rightarrow>
                if take 2 buf = ''11'' then (False, CmdString) else (True, CmdString)))"

text \<open>\<^verbatim>\<open>getCurrentPosition\<close>: the error flag and the point afterwards, which changes
  only when both replies parse.\<close>

definition getCurrentPosition :: "framework \<Rightarrow> MechanicalPoint \<Rightarrow> bool \<times> MechanicalPoint" where
  "getCurrentPosition fw p =
     (case reply_GR fw of
        None \<Rightarrow> (True, p)
      | Some b \<Rightarrow>
          (case parseStringRA p b 64 of
             (True, _) \<Rightarrow> (True, p)
           | (False, result) \<Rightarrow>
               (case reply_GD fw of
                  None \<Rightarrow> (True, p)
                | Some b' \<Rightarrow>
                    (case parseStringDEC result b' 64 of
                       (True, _) \<Rightarrow> (True, p)
                     | (False, result') \<Rightarrow> (False, result')))))"

text \<open>The pier side that \<^verbatim>\<open>Goto\<close> deduces from the hour angle.\<close>

definition Goto_HA :: "real \<Rightarrow> real \<Rightarrow> real" where
  "Goto_HA lst ra = fmod (lst - ra + 12) 12"

definition Goto_pierSide :: "real \<Rightarrow> real \<Rightarrow> TelescopePierSide" where
  "Goto_pierSide lst ra =
     (let HA = Goto_HA lst ra
      in if (- 12 < HA \<and> HA \<le> - 6) \<or> (0 \<le> HA \<and> HA < 6) then PIER_WEST else PIER_EAST)"

text \<open>\<^verbatim>\<open>Goto(ra, dec)\<close>: the returned flag and the state afterwards.\<close>

definition Goto :: "framework \<Rightarrow> real \<Rightarrow> real \<Rightarrow> EQ500X \<Rightarrow> bool \<times> EQ500X" where
  "Goto fw ra dec s =
     (let side = Goto_pierSide (LST fw) ra;
          target = setPierSide (DECm_set (RAm_set (targetPosition s) ra) dec) side;
          s1 = s\<lparr>pierSide := side, targetPosition := target\<rparr>
      in if EqNP_busy fw \<and> abort_fails fw then (False, s1\<lparr>trace := trace s1 @ [AbortSlew]\<rparr>)
         else
           (let s2 = (if EqNP_busy fw then s1\<lparr>trace := trace s1 @ [AbortSlew]\<rparr> else s1);
                sent = setTargetPosition fw target;
                s3 = s2\<lparr>trace := trace s2 @ [SendCmd (snd sent)]\<rparr>
            in if fst sent then (False, s3)
               else (True, s3\<lparr>countdown := MAX_CONVERGENCE_LOOPS, TrackState := SCOPE_SLEWING\<rparr>)))"

text \<open>An \<^verbatim>\<open>assert\<close> that fails ends the process: the null pointer after the choice of
  a slew rate, two opposite movements required at once, two opposite flags set at once.\<close>

datatype failure = AssertAdjust | AssertRequirement | AssertFlags

text \<open>The block that adjusts the RA axis, on the state and the command string so far.\<close>

definition adjust_RA :: "adjustment \<Rightarrow> real \<Rightarrow> EQ500X \<times> string \<Rightarrow> failure + EQ500X \<times> string" where
  "adjust_RA adj ra_delta sc =
     (let ra_epsilon = max (epsilon adj) RA_GRANULARITY;
          go_east = (ra_epsilon \<le> ra_delta);
          go_west = (ra_delta \<le> - ra_epsilon)
      in if go_east \<and> go_west then Inl AssertRequirement
         else
           (let sc = (if east (fst sc) \<and> (\<not> go_east \<or> go_west)
                      then ((fst sc)\<lparr>east := False\<rparr>, snd sc @ '':Qe#'') else sc);
                sc = (if west (fst sc) \<and> (\<not> go_west \<or> go_east)
                      then ((fst sc)\<lparr>west := False\<rparr>, snd sc @ '':Qw#'') else sc);
                sc = (if go_east \<and> \<not> east (fst sc)
                      then ((fst sc)\<lparr>east := True\<rparr>, snd sc @ '':Me#'') else sc);
                sc = (if go_west \<and> \<not> west (fst sc)
                      then ((fst sc)\<lparr>west := True\<rparr>, snd sc @ '':Mw#'') else sc)
            in Inr sc))"

text \<open>The block that adjusts the DEC axis.\<close>

definition adjust_DEC :: "adjustment \<Rightarrow> real \<Rightarrow> EQ500X \<times> string \<Rightarrow> failure + EQ500X \<times> string" where
  "adjust_DEC adj dec_delta sc =
     (let dec_epsilon = max (epsilon adj) DEC_GRANULARITY;
          go_south = (dec_epsilon \<le> dec_delta);
          go_north = (dec_delta \<le> - dec_epsilon)
      in if go_south \<and> go_north then Inl AssertRequirement
         else
           (let sc = (if south (fst sc) \<and> (\<not> go_south \<or> go_north)
                      then ((fst sc)\<lparr>south := False\<rparr>, snd sc @ '':Qs#'') else sc);
                sc = (if north (fst sc) \<and> (\<not> go_north \<or> go_south)
                      then ((fst sc)\<lparr>north := False\<rparr>, snd sc @ '':Qn#'') else sc);
                sc = (if go_south \<and> \<not> south (fst sc)
                      then ((fst sc)\<lparr>south := True\<rparr>, snd sc @ '':Ms#'') else sc);
                sc = (if go_north \<and> \<not> north (fst sc)
                      then ((fst sc)\<lparr>north := True\<rparr>, snd sc @ '':Mn#'') else sc)
            in Inr sc))"

text \<open>The choice of the slew rate that drives the tick: the state with the countdown and
  \<open>previous_adjustment\<close> updated, and the command string, which starts with the new slew
  rate when it changes. A null \<open>previous_adjustment\<close> is below no entry.\<close>

definition select_rate :: "nat \<Rightarrow> EQ500X \<Rightarrow> EQ500X \<times> string" where
  "select_rate adjustment s =
     (if previous_adjustment s \<noteq> Some adjustment
      then
        (s\<lparr>countdown :=
              (if (case previous_adjustment s of None \<Rightarrow> False | Some prev \<Rightarrow> adjustment < prev)
               then MAX_CONVERGENCE_LOOPS else countdown s),
            previous_adjustment := Some adjustment\<rparr>,
         slew_rate (adjustments ! adjustment))
      else (s, []))"

text \<open>The code after the label \<^verbatim>\<open>slew_failure\<close>.\<close>

definition slew_failure :: "EQ500X \<Rightarrow> bool \<times> EQ500X" where
  "slew_failure s =
     (False,
      s\<lparr>trace := trace s @ [SendCmd '':Q#'', SlewError], POLLMS := 1000,
        TrackState := SCOPE_TRACKING\<rparr>)"

text \<open>The end of an adjusting tick, once the flags are updated and the command string is
  complete: the command is sent when it is not empty, then the flags and the countdown
  decide.\<close>

definition conclude_adjustment :: "framework \<Rightarrow> nat \<Rightarrow> EQ500X \<times> string \<Rightarrow> failure + bool \<times> EQ500X" where
  "conclude_adjustment fw adjustment sc =
     (let s = fst sc; CmdString = snd sc
      in if \<not> (\<not> (east s \<and> west s) \<and> \<not> (north s \<and> south s)) then Inl AssertFlags
         else if CmdString \<noteq> [] \<and> write_fails fw
         then Inr (False, s\<lparr>trace := trace s @ [SendCmd CmdString, SlewError]\<rparr>)
         else
           (let s = (if CmdString \<noteq> [] then s\<lparr>trace := trace s @ [SendCmd CmdString]\<rparr> else s)
            in if \<not> east s \<and> \<not> west s \<and> \<not> north s \<and> \<not> south s then Inr (True, s)
               else if countdown s - 1 \<le> 0 then Inr (slew_failure (s\<lparr>countdown := countdown s - 1\<rparr>))
               else Inr (True,
                         s\<lparr>countdown := countdown s - 1,
                           POLLMS := polling_interval (adjustments ! adjustment)\<rparr>)))"

text \<open>The body of \<^verbatim>\<open>ReadScopeStatus\<close> under \<^verbatim>\<open>TrackState == SCOPE_SLEWING\<close>, up
  to the return.\<close>

definition slewing_tick :: "framework \<Rightarrow> EQ500X \<Rightarrow> failure + bool \<times> EQ500X" where
  "slewing_tick fw s =
     (let ra_delta = RA_degrees_to (currentPosition s) (targetPosition s);
          dec_delta = DEC_degrees_to (currentPosition s) (targetPosition s);
          abs_ra_delta = \<bar>ra_delta\<bar>;
          abs_dec_delta = \<bar>dec_delta\<bar>
      in if RA_GRANULARITY \<le> abs_ra_delta \<or> DEC_GRANULARITY \<le> abs_dec_delta
         then
           (case choose_adjust adjustments 0 abs_ra_delta of
              None \<Rightarrow> Inl AssertAdjust
            | Some ra_adjust \<Rightarrow>
                (case choose_adjust adjustments 0 abs_dec_delta of
                   None \<Rightarrow> Inl AssertAdjust
                 | Some dec_adjust \<Rightarrow>
                     (let adjustment = (if ra_adjust < dec_adjust then dec_adjust else ra_adjust);
                          sc = select_rate adjustment s
                      in case (if ra_adjust = adjustment
                               then adjust_RA (adjustments ! adjustment) ra_delta sc
                               else Inr sc) of
                           Inl f \<Rightarrow> Inl f
                         | Inr sc \<Rightarrow>
                             (case (if dec_adjust = adjustment
                                    then adjust_DEC (adjustments ! adjustment) dec_delta sc
                                    else Inr sc) of
                                Inl f \<Rightarrow> Inl f
                              | Inr sc \<Rightarrow> conclude_adjustment fw adjustment sc))))
         else
           Inr (True,
                s\<lparr>trace := trace s @ [SendCmd '':Q#:RG#''], POLLMS := 1000,
                  TrackState := SCOPE_TRACKING\<rparr>))"

text \<open>\<^verbatim>\<open>ReadScopeStatus\<close>: an assertion that fails, or the returned flag and the state
  afterwards.\<close>

definition ReadScopeStatus :: "framework \<Rightarrow> EQ500X \<Rightarrow> failure + bool \<times> EQ500X" where
  "ReadScopeStatus fw s =
     (if \<not> isConnected s then Inr (False, s)
      else
        (case getCurrentPosition fw (currentPosition s) of
           (True, _) \<Rightarrow> Inr (False, s)
         | (False, p) \<Rightarrow>
             (let s = s\<lparr>currentPosition := p\<rparr>
              in if TrackState s = SCOPE_SLEWING then slewing_tick fw s else Inr (True, s))))"

text \<open>A run of ticks, one \<^verbatim>\<open>framework\<close> reading for each: it stops at the first tick
  that fails an assertion, and gives the flags returned and the last state otherwise.\<close>

fun ticks :: "framework list \<Rightarrow> EQ500X \<Rightarrow> failure + bool list \<times> EQ500X" where
  "ticks [] s = Inr ([], s)"
| "ticks (fw # fws) s =
     (case ReadScopeStatus fw s of
        Inl f \<Rightarrow> Inl f
      | Inr (r, s') \<Rightarrow>
          (case ticks fws s' of
             Inl f \<Rightarrow> Inl f
           | Inr (rs, s'') \<Rightarrow> Inr (r # rs, s'')))"

text \<open>The state of a driver that has run no tick yet: the static locals hold their
  initialisers.\<close>

definition fresh_statics :: "EQ500X \<Rightarrow> bool" where
  "fresh_statics s =
     (previous_adjustment s = None \<and> \<not> east s \<and> \<not> west s \<and> \<not> north s \<and> \<not> south s)"

text \<open>The last assertion of the adjustment, as a predicate of the state, and the negation
  of the test that all movement flags are cleared.\<close>

definition flags_exclusive :: "EQ500X \<Rightarrow> bool" where
  "flags_exclusive s = (\<not> (east s \<and> west s) \<and> \<not> (north s \<and> south s))"

definition moving :: "EQ500X \<Rightarrow> bool" where
  "moving s = (east s \<or> west s \<or> north s \<or> south s)"

text \<open>A reading that holds a connected, slewing mount off its target: both replies parse,
  the point read is at the granularity or more from the target on some axis and within
  the last \<open>distance\<close> of the table on both, and the write of \<^verbatim>\<open>sendCmd\<close> succeeds.\<close>

definition off_target :: "framework \<Rightarrow> EQ500X \<Rightarrow> bool" where
  "off_target fw s =
     (isConnected s \<and> TrackState s = SCOPE_SLEWING \<and> \<not> write_fails fw
      \<and> \<not> fst (getCurrentPosition fw (currentPosition s))
      \<and> (let p = snd (getCurrentPosition fw (currentPosition s));
              abs_ra_delta = \<bar>RA_degrees_to p (targetPosition s)\<bar>;
              abs_dec_delta = \<bar>DEC_degrees_to p (targetPosition s)\<bar>
          in (RA_GRANULARITY \<le> abs_ra_delta \<or> DEC_GRANULARITY \<le> abs_dec_delta)
             \<and> abs_ra_delta \<le> 360 \<and> abs_dec_delta \<le> 360))"

text \<open>The number of times the command that stops all axes was given to \<^verbatim>\<open>sendCmd\<close>.\<close>

definition stop_all_count :: "event list \<Rightarrow> nat" where
  "stop_all_count evs = length (filter (\<lambda>e. e = SendCmd '':Q#'') evs)"

subsection \<open>An example\<close>

text \<open>A connected mount that tracks and has run no tick, a reading of the framework and
  of a mount at \<open>00:00:00\<close>, \<open>+00:00:00\<close> that accepts every command, and the state
  that \<^verbatim>\<open>Goto(2, 45)\<close> leaves with that reading.\<close>

definition mount_at_rest :: EQ500X where
  "mount_at_rest =
     \<lparr>isConnected = True, TrackState = SCOPE_TRACKING, pierSide = PIER_UNKNOWN, POLLMS = 1000,
        countdown = 0,
        currentPosition = \<lparr>m_pierSide = PIER_EAST, m_RAm = 0, m_DECm = 0\<rparr>,
        targetPosition = \<lparr>m_pierSide = PIER_EAST, m_RAm = 0, m_DECm = 0\<rparr>,
        trace = [], previous_adjustment = None, east = False, west = False, north = False,
        south = False\<rparr>"

definition reading_at_zero :: framework where
  "reading_at_zero =
     \<lparr>LST = 3, EqNP_busy = False, abort_fails = False, write_fails = False,
        reply_set = Some ''11'', reply_GR = Some ''00:00:00'', reply_GD = Some ''+00:00:00''\<rparr>"

definition mount_slewing :: EQ500X where
  "mount_slewing =
     \<lparr>isConnected = True, TrackState = SCOPE_SLEWING, pierSide = PIER_WEST, POLLMS = 1000,
        countdown = 144,
        currentPosition = \<lparr>m_pierSide = PIER_EAST, m_RAm = 0, m_DECm = 0\<rparr>,
        targetPosition = \<lparr>m_pierSide = PIER_WEST, m_RAm = 7200, m_DECm = 162000\<rparr>,
        trace = [SendCmd '':Sr14:00:00#:Sd-45:00:00#''], previous_adjustment = None,
        east = False, west = False, north = False, south = False\<rparr>"

section \<open>Properties\<close>

subsection \<open>Rounding to a double\<close>

text \<open>The rounding does not decrease from one number to a larger one, and it leaves a
  double as it is: a significand below \<open>2 ^ 53\<close> times a power of two of exponent at
  least \<open>-1074\<close>.\<close>

lemma rne_mono: "x \<le> y \<Longrightarrow> rne x \<le> rne y"
proof -
  assume xy: "x \<le> y"
  have fl: "\<lfloor>x\<rfloor> \<le> \<lfloor>y\<rfloor>" using xy by (rule floor_mono)
  have bx: "rne x \<le> \<lfloor>x\<rfloor> + 1" by (simp add: rne_def Let_def)
  have by': "\<lfloor>y\<rfloor> \<le> rne y" by (simp add: rne_def Let_def)
  show ?thesis
  proof (cases "\<lfloor>x\<rfloor> = \<lfloor>y\<rfloor>")
    case True
    then have "x - of_int \<lfloor>x\<rfloor> \<le> y - of_int \<lfloor>x\<rfloor>" using xy by simp
    then show ?thesis using True by (auto simp add: rne_def Let_def)
  next
    case False
    then show ?thesis using fl bx by' by linarith
  qed
qed

lemma rne_of_int [simp]: "rne (of_int n) = n"
  by (simp add: rne_def Let_def)

lemma binade_bounds:
  "0 < a \<Longrightarrow> 2 powi binade a \<le> a \<and> a < 2 powi (binade a + 1)"
proof (induction a rule: binade.induct)
  case (1 a)
  show ?case
  proof (cases "2 \<le> a")
    case True
    then have b: "binade a = binade (a / 2) + 1" using 1(3) by (subst binade.simps) simp
    have "2 powi binade (a / 2) \<le> a / 2 \<and> a / 2 < 2 powi (binade (a / 2) + 1)"
      using 1(1) 1(3) True by simp
    then show ?thesis unfolding b by (simp add: power_int_add)
  next
    case False
    show ?thesis
    proof (cases "a < 1")
      case True
      then have b: "binade a = binade (a * 2) - 1" using 1(3) False by (subst binade.simps) simp
      have "2 powi binade (a * 2) \<le> a * 2 \<and> a * 2 < 2 powi (binade (a * 2) + 1)"
        using 1(2) 1(3) True False by simp
      then show ?thesis unfolding b by (simp add: power_int_add power_int_diff)
    next
      case True': False
      then have b: "binade a = 0" using 1(3) False by (subst binade.simps) simp
      show ?thesis unfolding b using False True' by simp
    qed
  qed
qed


lemma powi_less_exp: "(2 :: real) powi m < 2 powi n \<Longrightarrow> m < n"
proof (rule ccontr)
  assume a: "(2 :: real) powi m < 2 powi n" and b: "\<not> m < n"
  have "(2 :: real) powi n \<le> 2 powi m" using b by (intro power_int_increasing) simp_all
  with a show False by simp
qed

lemma binade_le:
  assumes "0 < x" "x \<le> y"
  shows "binade x \<le> binade y"
proof -
  have "2 powi binade x \<le> x" using binade_bounds [of x] assms by simp
  moreover have "y < 2 powi (binade y + 1)" using binade_bounds [of y] assms by simp
  ultimately have "(2 :: real) powi binade x < 2 powi (binade y + 1)" using assms(2) by linarith
  then have "binade x < binade y + 1" by (rule powi_less_exp)
  then show ?thesis by simp
qed

lemma to_double_nonneg: "0 \<le> x \<Longrightarrow> 0 \<le> to_double x"
proof -
  assume "0 \<le> x"
  then have "rne 0 \<le> rne (x / 2 powi (max (binade \<bar>x\<bar> - 52) (- 1074)))"
    by (intro rne_mono) simp
  then have "0 \<le> rne (x / 2 powi (max (binade \<bar>x\<bar> - 52) (- 1074)))"
    using rne_of_int [of 0] by simp
  then show ?thesis by (simp add: to_double_def Let_def)
qed

lemma to_double_0 [simp]: "to_double 0 = 0"
  using rne_of_int [of 0] by (simp add: to_double_def Let_def)

lemma to_double_mono:
  assumes x: "0 \<le> x" and xy: "x \<le> y"
  shows "to_double x \<le> to_double y"
proof (cases "x = 0")
  case True
  then show ?thesis using to_double_nonneg [of y] xy by simp
next
  case False
  then have px: "0 < x" and py: "0 < y" using x xy by simp_all
  define qx where "qx = max (binade x - 52) (- 1074)"
  define qy where "qy = max (binade y - 52) (- 1074)"
  have tx: "to_double x = of_int (rne (x / 2 powi qx)) * 2 powi qx"
    using px by (simp add: to_double_def Let_def qx_def)
  have ty: "to_double y = of_int (rne (y / 2 powi qy)) * 2 powi qy"
    using py by (simp add: to_double_def Let_def qy_def)
  have q: "qx \<le> qy" using binade_le [OF px xy] by (simp add: qx_def qy_def)
  show ?thesis
  proof (cases "qx = qy")
    case True
    have "x / 2 powi qy \<le> y / 2 powi qy" using xy by (simp add: divide_right_mono)
    then have "rne (x / 2 powi qy) \<le> rne (y / 2 powi qy)" by (rule rne_mono)
    then show ?thesis unfolding tx ty True by (simp add: mult_right_mono)
  next
    case False
    then have lt: "qx + 1 \<le> qy" using q by simp
    then have qy': "qy = binade y - 52" by (simp add: qy_def qx_def)
    have qx': "binade x + 1 \<le> qx + 53" by (simp add: qx_def)
    have "x < 2 powi (binade x + 1)" using binade_bounds [OF px] by simp
    also have "\<dots> \<le> 2 powi (qx + 53)" using qx' by (intro power_int_increasing) simp_all
    finally have "x < 2 powi 53 * 2 powi qx" by (simp add: power_int_add)
    then have "x / 2 powi qx \<le> of_int (2 ^ 53)" by (simp add: field_simps)
    then have "rne (x / 2 powi qx) \<le> rne (of_int (2 ^ 53))" by (rule rne_mono)
    then have "rne (x / 2 powi qx) \<le> 2 ^ 53" by (simp only: rne_of_int)
    then have "(of_int (rne (x / 2 powi qx)) :: real) \<le> of_int (2 ^ 53)" by (simp only: of_int_le_iff)
    then have "to_double x \<le> of_int (2 ^ 53) * 2 powi qx" unfolding tx by (simp add: mult_right_mono)
    also have "\<dots> = 2 powi (qx + 53)" by (simp add: power_int_add)
    also have "\<dots> \<le> 2 powi (qy + 52)" using lt by (intro power_int_increasing) simp_all
    finally have up: "to_double x \<le> 2 powi (qy + 52)" .
    have "2 powi (qy + 52) \<le> y" using binade_bounds [OF py] by (simp add: qy')
    then have "of_int (2 ^ 52) \<le> y / 2 powi qy" by (simp add: field_simps power_int_add)
    then have "rne (of_int (2 ^ 52)) \<le> rne (y / 2 powi qy)" by (rule rne_mono)
    then have "2 ^ 52 \<le> rne (y / 2 powi qy)" by (simp only: rne_of_int)
    then have "(of_int (2 ^ 52) :: real) \<le> of_int (rne (y / 2 powi qy))" by (simp only: of_int_le_iff)
    then have "of_int (2 ^ 52) * 2 powi qy \<le> to_double y" unfolding ty by (simp add: mult_right_mono)
    moreover have "of_int (2 ^ 52) * 2 powi qy = (2 :: real) powi (qy + 52)" by (simp add: power_int_add)
    ultimately show ?thesis using up by linarith
  qed
qed

lemma to_double_exact:
  assumes m: "\<bar>m\<bar> < 2 ^ 53" and k: "- 1074 \<le> k"
  shows "to_double (of_int m * 2 powi k) = of_int m * 2 powi k"
proof (cases "m = 0")
  case True
  then show ?thesis by simp
next
  case False
  define x :: real where "x = of_int m * 2 powi k"
  define q where "q = max (binade \<bar>x\<bar> - 52) (- 1074)"
  have ax: "\<bar>x\<bar> = of_int \<bar>m\<bar> * 2 powi k" by (simp add: x_def abs_mult)
  have pos: "0 < \<bar>x\<bar>" using False by (simp add: x_def)
  have "(of_int \<bar>m\<bar> :: real) < of_int (2 ^ 53)" using m by (simp only: of_int_less_iff)
  then have "\<bar>x\<bar> < 2 powi 53 * 2 powi k" unfolding ax by (simp add: mult_strict_right_mono)
  then have "\<bar>x\<bar> < 2 powi (53 + k)" by (simp add: power_int_add)
  moreover have "2 powi binade \<bar>x\<bar> \<le> \<bar>x\<bar>" using binade_bounds [OF pos] by simp
  ultimately have "(2 :: real) powi binade \<bar>x\<bar> < 2 powi (53 + k)" by linarith
  then have "binade \<bar>x\<bar> < 53 + k" by (rule powi_less_exp)
  then have qk: "q \<le> k" using k by (simp add: q_def)
  have "x / 2 powi q = of_int m * 2 powi (k - q)" by (simp add: x_def power_int_diff)
  also have "\<dots> = of_int m * 2 ^ nat (k - q)" using qk by (simp add: power_int_def)
  also have "\<dots> = of_int (m * 2 ^ nat (k - q))" by simp
  finally have i: "x / 2 powi q = of_int (m * 2 ^ nat (k - q))" .
  have "to_double x = of_int (rne (x / 2 powi q)) * 2 powi q"
    by (simp add: to_double_def Let_def q_def)
  also have "\<dots> = of_int (m * 2 ^ nat (k - q)) * 2 powi q" unfolding i by (simp only: rne_of_int)
  also have "\<dots> = x / 2 powi q * 2 powi q" unfolding i ..
  also have "\<dots> = x" by simp
  finally show ?thesis by (simp add: x_def)
qed

lemma to_double_between:
  assumes "0 \<le> a" "a \<le> x" "x \<le> b" "to_double a = a" "to_double b = b"
  shows "a \<le> to_double x \<and> to_double x \<le> b"
  using to_double_mono [of a x] to_double_mono [of x b] assms by simp

text \<open>The constants that bound the sums and products of the setters are doubles.\<close>

lemma double_constants:
  "to_double 24 = 24" "to_double (24 - 1 / 4096) = 24 - 1 / 4096"
  "to_double (2 * 24 - 1 / 4096) = 2 * 24 - 1 / 4096"
  "to_double (24 * 3600) = 24 * 3600"
  "to_double (24 * 3600 - 3 / 4) = 24 * 3600 - 3 / 4"
  "to_double 256 = 256" "to_double (256 - 1 / 4096) = 256 - 1 / 4096"
  "to_double (2 * 256 - 1 / 4096) = 2 * 256 - 1 / 4096"
  "to_double (256 * 3600) = 256 * 3600"
  "to_double (256 * 3600 - 3 / 4) = 256 * 3600 - 3 / 4"
  by (simp_all add: to_double_def binade.simps rne_def Let_def)

subsection \<open>Remainder and rounding to an integer\<close>

lemma fmod_nonneg_range:
  assumes "0 \<le> x" "0 < y"
  shows "0 \<le> fmod x y \<and> fmod x y < y"
proof -
  have q: "0 \<le> x / y" using assms by simp
  have "x - y * of_int \<lfloor>x / y\<rfloor> = y * (x / y - of_int \<lfloor>x / y\<rfloor>)"
    using assms by (simp add: algebra_simps)
  moreover have "0 \<le> x / y - of_int \<lfloor>x / y\<rfloor>" "x / y - of_int \<lfloor>x / y\<rfloor> < 1"
    by linarith+
  ultimately have "0 \<le> x - y * of_int \<lfloor>x / y\<rfloor> \<and> x - y * of_int \<lfloor>x / y\<rfloor> < y"
    using assms(2) by (simp add: mult_less_cancel_left2 )
  then show ?thesis using q by (simp add: fmod_def trunc_def)
qed

lemma fmod_first_period: "0 \<le> x \<Longrightarrow> x < b \<Longrightarrow> fmod x b = x"
proof -
  assume a: "0 \<le> x" "x < b"
  then have "\<lfloor>x / b\<rfloor> = 0" by (simp add: floor_eq_iff)
  then show ?thesis using a by (simp add: fmod_def trunc_def)
qed

lemma fmod_second_period: "b \<le> x \<Longrightarrow> x < 2 * b \<Longrightarrow> 0 < b \<Longrightarrow> fmod x b = x - b"
proof -
  assume a: "b \<le> x" "x < 2 * b" "0 < b"
  then have "\<lfloor>x / b\<rfloor> = 1" by (simp add: floor_eq_iff field_simps)
  then show ?thesis using a by (simp add: fmod_def trunc_def)
qed

lemma lround_between:
  assumes "of_int a \<le> x" "x \<le> of_int b" "0 \<le> a"
  shows "a \<le> lround x \<and> lround x \<le> b"
proof -
  have "0 \<le> x" using assms(1,3) by (meson of_int_0_le_iff order_trans)
  moreover have "a \<le> \<lfloor>x + 1 / 2\<rfloor>" using assms(1) by (simp add: le_floor_iff)
  moreover have "\<lfloor>x + 1 / 2\<rfloor> \<le> b" using assms(2) by (simp add: floor_le_iff)
  ultimately show ?thesis by (simp add: lround_def)
qed

text \<open>The ticks that a setter of period \<open>b\<close> computes: within the closed range of one
  period for every value from \<open>-b\<close> on, and below the period for a value in \<open>[-b, b)\<close>
  that, brought into \<open>[0, b)\<close>, is at least one tick short of \<open>b\<close>.\<close>

lemma ticks_closed_range:
  assumes b: "0 < b" and n: "b * 3600 = of_int n" and e: "to_double (b * 3600) = b * 3600"
    and v: "- b \<le> v"
  shows "0 \<le> lround (to_double (fmod (to_double (v + b)) b * 3600))
       \<and> lround (to_double (fmod (to_double (v + b)) b * 3600)) \<le> n"
proof -
  have "0 \<le> to_double (v + b)" using v by (intro to_double_nonneg) simp
  then have f: "0 \<le> fmod (to_double (v + b)) b \<and> fmod (to_double (v + b)) b < b"
    using b by (intro fmod_nonneg_range)
  then have "0 \<le> fmod (to_double (v + b)) b * 3600" "fmod (to_double (v + b)) b * 3600 \<le> b * 3600"
    by simp_all
  then have "0 \<le> to_double (fmod (to_double (v + b)) b * 3600)
      \<and> to_double (fmod (to_double (v + b)) b * 3600) \<le> b * 3600"
    using to_double_between [of 0 _ "b * 3600"] e by simp
  then show ?thesis
    using lround_between [of 0 "to_double (fmod (to_double (v + b)) b * 3600)" n] n by simp
qed

lemma ticks_open_range:
  assumes b: "0 < b" and n: "b * 3600 = of_int n"
    and e: "to_double b = b" "to_double (b - 1 / 4096) = b - 1 / 4096"
      "to_double (2 * b - 1 / 4096) = 2 * b - 1 / 4096"
      "to_double (b * 3600 - 3 / 4) = b * 3600 - 3 / 4"
    and big: "1 \<le> b"
    and v: "- b \<le> v" "v < b" "fmod (v + b) b \<le> b - 1 / 3600"
  shows "lround (to_double (fmod (to_double (v + b)) b * 3600)) < n"
proof -
  have f: "0 \<le> fmod (to_double (v + b)) b \<and> fmod (to_double (v + b)) b \<le> b - 1 / 4096"
  proof (cases "v < 0")
    case True
    then have "fmod (v + b) b = v + b" using v by (intro fmod_first_period) simp_all
    then have "0 \<le> v + b" "v + b \<le> b - 1 / 4096" using v by simp_all
    then have r: "0 \<le> to_double (v + b) \<and> to_double (v + b) \<le> b - 1 / 4096"
      using to_double_between [of 0 "v + b" "b - 1 / 4096"] e by simp
    then have "fmod (to_double (v + b)) b = to_double (v + b)"
      by (intro fmod_first_period) simp_all
    then show ?thesis using r by simp
  next
    case False
    then have "fmod (v + b) b = v + b - b" using v b by (intro fmod_second_period) simp_all
    then have "b \<le> v + b" "v + b \<le> 2 * b - 1 / 4096" using v False by simp_all
    then have r: "b \<le> to_double (v + b) \<and> to_double (v + b) \<le> 2 * b - 1 / 4096"
      using to_double_between [of b "v + b" "2 * b - 1 / 4096"] e b by simp
    then have "fmod (to_double (v + b)) b = to_double (v + b) - b"
      using b by (intro fmod_second_period) simp_all
    then show ?thesis using r by simp
  qed
  then have "0 \<le> fmod (to_double (v + b)) b * 3600"
    "fmod (to_double (v + b)) b * 3600 \<le> b * 3600 - 3 / 4"
    by simp_all
  moreover have "0 \<le> b * 3600 - 3 / 4" using big by simp
  ultimately have z: "0 \<le> to_double (fmod (to_double (v + b)) b * 3600)
      \<and> to_double (fmod (to_double (v + b)) b * 3600) \<le> b * 3600 - 3 / 4"
    using to_double_between [of 0 _ "b * 3600 - 3 / 4"] e by simp
  then have "\<lfloor>to_double (fmod (to_double (v + b)) b * 3600) + 1 / 2\<rfloor> < n"
    using n by (simp add: floor_less_iff)
  then show ?thesis using z by (simp add: lround_def)
qed

subsection \<open>The table of slew rates\<close>

lemma adjustments_nth:
  "adjustments ! 0 = \<lparr>slew_rate = '':RG#'', epsilon = 1 / 3600, distance = 7 / 600, polling_interval = 100\<rparr>"
  "adjustments ! 1 = \<lparr>slew_rate = '':RC#'', epsilon = 7 / 600, distance = 1 / 6, polling_interval = 200\<rparr>"
  "adjustments ! 2 = \<lparr>slew_rate = '':RM#'', epsilon = 1 / 6, distance = 5, polling_interval = 500\<rparr>"
  "adjustments ! 3 = \<lparr>slew_rate = '':RS#'', epsilon = 5, distance = 10, polling_interval = 500\<rparr>"
  "adjustments ! 4 = \<lparr>slew_rate = '':RS#'', epsilon = 10, distance = 360, polling_interval = 1000\<rparr>"
  "length adjustments = 5"
  by (simp_all add: adjustments_def ARCSECOND_def ARCMINUTE_def ONEDEGREE_def)

lemma less_4_cases: "i < (4::nat) \<Longrightarrow> i = 0 \<or> i = 1 \<or> i = 2 \<or> i = 3"
  by arith

text \<open>
  Claim C7. The table has five entries, and for every adjacent pair the \<open>epsilon\<close> of the
  faster rate is at most the \<open>distance\<close> of the slower one before it, so that no
  assertion of the constructor fails.
\<close>

theorem adjustments_epsilon_le_distance:
  "length adjustments = 5 \<and> constructor_asserts adjustments 0 \<and>
   (\<forall>i. i + 1 < length adjustments \<longrightarrow>
      epsilon (adjustments ! (i + 1)) \<le> distance (adjustments ! i))"
proof (intro conjI allI impI)
  show "length adjustments = 5" by (simp add: adjustments_nth)
  show "constructor_asserts adjustments 0"
    by (simp add: adjustments_def ARCSECOND_def ARCMINUTE_def ONEDEGREE_def)
  fix i assume "i + 1 < length adjustments"
  then have "i < 4" by (simp add: adjustments_nth)
  then have "i = 0 \<or> i = 1 \<or> i = 2 \<or> i = 3" by (rule less_4_cases)
  then show "epsilon (adjustments ! (i + 1)) \<le> distance (adjustments ! i)"
    by (auto simp: adjustments_def ARCSECOND_def ARCMINUTE_def ONEDEGREE_def)
qed

theorem adjustments_epsilon_le_distance_witness:
  "(0::nat) + 1 < length adjustments \<and> epsilon (adjustments ! (0 + 1)) \<le> distance (adjustments ! 0)"
  using adjustments_epsilon_le_distance by (simp add: adjustments_def ARCSECOND_def ARCMINUTE_def ONEDEGREE_def)

subsection \<open>The distance in right ascension\<close>

text \<open>
  Claim C6, as the code has it. Between two points whose RA ticks are normalised, the
  distance is the difference of the ticks brought into the closed range from \<open>-12h\<close> to
  \<open>+12h\<close> by a multiple of 24 hours, times 15, in degrees; the value \<open>-12h\<close> is kept,
  it is not turned into \<open>+12h\<close>. From \<open>23:59:59\<close> to \<open>00:00:01\<close> the distance is 30
  seconds of arc.
\<close>

theorem RA_degrees_to_circular:
  assumes "0 \<le> m_RAm a" "m_RAm a < 86400" "0 \<le> m_RAm b" "m_RAm b < 86400"
  shows "RA_degrees_to a b = of_int (RA_delta_ticks a b) * 15 / 3600
       \<and> - 43200 \<le> RA_delta_ticks a b \<and> RA_delta_ticks a b \<le> 43200
       \<and> (RA_delta_ticks a b - (m_RAm b - m_RAm a)) mod 86400 = 0
       \<and> (RA_delta_ticks a b = - 43200 \<longleftrightarrow> m_RAm b - m_RAm a = - 43200)
       \<and> RA_degrees_to \<lparr>m_pierSide = PIER_EAST, m_RAm = 86399, m_DECm = 0\<rparr>
            \<lparr>m_pierSide = PIER_EAST, m_RAm = 1, m_DECm = 0\<rparr> = 30 / 3600"
proof -
  let ?d = "m_RAm b - m_RAm a"
  have range: "- 86400 < ?d" "?d < 86400" using assms by simp_all
  have 1: "RA_degrees_to a b = of_int (RA_delta_ticks a b) * 15 / 3600"
    by (simp add: RA_degrees_to_def)
  have 2: "- 43200 \<le> RA_delta_ticks a b \<and> RA_delta_ticks a b \<le> 43200"
    using range by (simp add: RA_delta_ticks_def Let_def)
  have 3: "(RA_delta_ticks a b - ?d) mod 86400 = 0"
    by (simp add: RA_delta_ticks_def Let_def)
  have 4: "RA_delta_ticks a b = - 43200 \<longleftrightarrow> ?d = - 43200"
    using range by (auto simp add: RA_delta_ticks_def Let_def)
  have 5: "RA_degrees_to \<lparr>m_pierSide = PIER_EAST, m_RAm = 86399, m_DECm = 0\<rparr>
            \<lparr>m_pierSide = PIER_EAST, m_RAm = 1, m_DECm = 0\<rparr> = 30 / 3600"
    by (simp add: RA_degrees_to_def RA_delta_ticks_def Let_def)
  from 1 2 3 4 5 show ?thesis by blast
qed

theorem RA_degrees_to_circular_witness:
  "RA_degrees_to \<lparr>m_pierSide = PIER_EAST, m_RAm = 3600, m_DECm = 0\<rparr>
      \<lparr>m_pierSide = PIER_WEST, m_RAm = 82800, m_DECm = 0\<rparr> = - 30
   \<and> RA_delta_ticks \<lparr>m_pierSide = PIER_EAST, m_RAm = 3600, m_DECm = 0\<rparr>
      \<lparr>m_pierSide = PIER_WEST, m_RAm = 82800, m_DECm = 0\<rparr> = - 7200"
  using RA_degrees_to_circular [of "\<lparr>m_pierSide = PIER_EAST, m_RAm = 3600, m_DECm = 0\<rparr>"
      "\<lparr>m_pierSide = PIER_WEST, m_RAm = 82800, m_DECm = 0\<rparr>"]
  by (simp add: RA_delta_ticks_def)

text \<open>The claim excludes \<open>-12h\<close> from the range. From \<open>12:00:00\<close> to \<open>00:00:00\<close> the
  distance is \<open>-180\<close> degrees.\<close>

theorem RA_degrees_to_minus_12h_counterexample:
  "\<not> (- 180 < RA_degrees_to \<lparr>m_pierSide = PIER_EAST, m_RAm = 43200, m_DECm = 0\<rparr>
                \<lparr>m_pierSide = PIER_EAST, m_RAm = 0, m_DECm = 0\<rparr>
        \<and> RA_degrees_to \<lparr>m_pierSide = PIER_EAST, m_RAm = 43200, m_DECm = 0\<rparr>
                \<lparr>m_pierSide = PIER_EAST, m_RAm = 0, m_DECm = 0\<rparr> \<le> 180)"
  by (simp add: RA_degrees_to_def RA_delta_ticks_def Let_def)

subsection \<open>The pier side of a goto\<close>




subsection \<open>The text of a declination\<close>

lemma sdiv_smod_nonneg:
  fixes a b :: int
  assumes "0 \<le> a" "0 < b"
  shows "a sdiv b = a div b" "a smod b = a mod b"
  using assms by (simp_all add: signed_divide_int_def signed_modulo_int_def sgn_if)

lemma smod_small:
  fixes d :: int
  assumes "\<bar>d\<bar> < m"
  shows "d smod m = d"
  using assms by (auto simp add: signed_modulo_int_def sgn_if abs_if)

lemma digit_char_0: "digit_char 0 = CHR ''0''"
  by (simp add: digit_char_def char_of_def)

lemma dec_digits_lt_10: "n < 10 \<Longrightarrow> dec_digits n = [digit_char (int n)]"
  by (subst dec_digits.simps) simp

lemma dec_digits_lt_100:
  "10 \<le> n \<Longrightarrow> n < 100 \<Longrightarrow> dec_digits n = [digit_char (int (n div 10)), digit_char (int (n mod 10))]"
  by (subst dec_digits.simps) (simp add: dec_digits_lt_10)

lemma fmt_02d_two_digits:
  assumes "0 \<le> n" "n < 100"
  shows "fmt_02d n = [digit_char (n div 10), digit_char (n mod 10)]"
proof (cases "n < 10")
  case True
  then have "nat n < 10" using assms by simp
  then have "dec_digits (nat n) = [digit_char n]" using assms by (simp add: dec_digits_lt_10)
  then show ?thesis using True assms by (simp add: fmt_02d_def digit_char_0)
next
  case False
  then have "10 \<le> nat n" "nat n < 100" using assms by simp_all
  then have "dec_digits (nat n) = [digit_char (int (nat n div 10)), digit_char (int (nat n mod 10))]"
    by (rule dec_digits_lt_100)
  moreover have "int (nat n div 10) = n div 10" "int (nat n mod 10) = n mod 10"
    using assms by (simp_all add: zdiv_int zmod_int)
  ultimately show ?thesis using False assms by (simp add: fmt_02d_def)
qed

lemma high_digit_switch_digit_char:
  assumes "10 \<le> t" "t \<le> 25"
  shows "high_digit_switch t = Some (digit_char t)"
proof -
  have "t = 10 \<or> t = 11 \<or> t = 12 \<or> t = 13 \<or> t = 14 \<or> t = 15 \<or> t = 16 \<or> t = 17
      \<or> t = 18 \<or> t = 19 \<or> t = 20 \<or> t = 21 \<or> t = 22 \<or> t = 23 \<or> t = 24 \<or> t = 25"
    using assms by arith
  then show ?thesis
    by (elim disjE) (simp_all add: high_digit_switch_def digit_char_def char_of_def)
qed

lemma high_digit_switch_default:
  "t < 10 \<or> 25 < t \<Longrightarrow> high_digit_switch t = None"
  by (auto simp add: high_digit_switch_def)

lemma digit_char_table:
  "digit_char 9 = CHR ''9''" "digit_char 10 = CHR '':''" "digit_char 23 = CHR ''G''"
  "digit_char 25 = CHR ''I''"
  by (simp_all add: digit_char_def char_of_def)


lemma smod_abs_less:
  fixes a m :: int
  assumes "0 < m"
  shows "\<bar>a smod m\<bar> < m"
  using assms by (simp add: signed_modulo_int_def sgn_if abs_mult)

text \<open>The text that toStringDEC writes when the buffer has room for it.\<close>

lemma toStringDEC_text:
  assumes "10 \<le> n"
    and "v = (if m_pierSide p = PIER_EAST then 90 * 3600 - m_DECm p else m_DECm p - 90 * 3600)"
    and "deg = (v sdiv 3600) smod 256"
  shows "toStringDEC p n
           = Some [if 0 \<le> deg then CHR ''+'' else CHR ''-'',
                   digit_char (\<bar>deg\<bar> div 10), digit_char (\<bar>deg\<bar> mod 10), CHR '':'',
                   digit_char (((\<bar>v\<bar> div 60) mod 60) div 10),
                   digit_char (((\<bar>v\<bar> div 60) mod 60) mod 10), CHR '':'',
                   digit_char ((\<bar>v\<bar> mod 60) div 10), digit_char ((\<bar>v\<bar> mod 60) mod 10)]"
proof -
  have bound: "\<bar>deg\<bar> < 256" using assms(3) by (simp add: smod_abs_less)
  have degrees: "(v sdiv 3600) smod 256 = deg" using assms(3) by simp
  have mins: "(\<bar>v\<bar> sdiv 60) smod 60 = (\<bar>v\<bar> div 60) mod 60"
    by (simp add: sdiv_smod_nonneg)
  have secs: "\<bar>v\<bar> smod 60 = \<bar>v\<bar> mod 60"
    by (simp add: sdiv_smod_nonneg)
  have min: "0 \<le> (\<bar>v\<bar> div 60) mod 60" "(\<bar>v\<bar> div 60) mod 60 < 100"
    by simp_all
  have sec: "0 \<le> \<bar>v\<bar> mod 60" "\<bar>v\<bar> mod 60 < 100"
    by simp_all
  have tens: "\<bar>deg\<bar> sdiv 10 = \<bar>deg\<bar> div 10" "\<bar>deg\<bar> smod 10 = \<bar>deg\<bar> mod 10"
    by (simp_all add: sdiv_smod_nonneg)
  have range: "\<not> (deg < - 255 \<or> 255 < deg)" using bound by arith
  have high: "(if - 100 < deg \<and> deg < 100 then Some (digit_char (\<bar>deg\<bar> div 10))
               else high_digit_switch (\<bar>deg\<bar> div 10)) = Some (digit_char (\<bar>deg\<bar> div 10))"
  proof (cases "- 100 < deg \<and> deg < 100")
    case True
    then show ?thesis by simp
  next
    case False
    then have "100 \<le> \<bar>deg\<bar>" by arith
    then have "10 \<le> \<bar>deg\<bar> div 10" "\<bar>deg\<bar> div 10 \<le> 25" using bound by arith+
    then show ?thesis using False by (simp add: high_digit_switch_digit_char)
  qed
  show ?thesis
    unfolding toStringDEC_def Let_def assms(2) [symmetric] degrees tens high mins secs
    using assms(1) range
    by (simp add: fmt_02d_two_digits [OF min] fmt_02d_two_digits [OF sec])
qed

text \<open>
  Claim C3, as the code has it. For a coordinate whose degrees, the signed value over
  3600 truncated, are within 255 in magnitude, \<^verbatim>\<open>toStringDEC\<close> succeeds and writes the
  sign, then the character \<open>'0' + |degrees| / 10\<close>, then the digit of \<open>|degrees| % 10\<close>.
  Below 100 the high character is a decimal digit (\<open>'0','9'\<close> for 9 and \<open>'0','0'\<close> for 0);
  from 100 on it is the entry of the table for the tens and hundreds \<open>t\<close> in \<open>[10,25]\<close>,
  \<open>':' + (t - 10)\<close>, which is \<open>'G'\<close> for \<open>t = 23\<close>, that is for 230 to 239 degrees.
\<close>

theorem toStringDEC_high_digit:
  assumes "10 \<le> n"
    and "deg = (if m_pierSide p = PIER_EAST then 90 * 3600 - m_DECm p
                else m_DECm p - 90 * 3600) sdiv 3600"
    and "\<bar>deg\<bar> \<le> 255"
  shows "(\<exists>rest. length rest = 6 \<and>
            toStringDEC p n
              = Some ((if 0 \<le> deg then CHR ''+'' else CHR ''-'')
                       # digit_char (\<bar>deg\<bar> div 10) # digit_char (\<bar>deg\<bar> mod 10) # rest))
       \<and> (\<forall>t. 10 \<le> t \<and> t \<le> 25
              \<longrightarrow> high_digit_switch t = Some (char_of (of_char CHR '':'' + (t - 10))))
       \<and> digit_char 23 = CHR ''G''
       \<and> toStringDEC \<lparr>m_pierSide = PIER_WEST, m_RAm = 0, m_DECm = (90 + 230) * 3600\<rparr> 10
             = Some ''+G0:00:00''
       \<and> toStringDEC \<lparr>m_pierSide = PIER_WEST, m_RAm = 0, m_DECm = (90 + 9) * 3600\<rparr> 10
             = Some ''+09:00:00''
       \<and> toStringDEC \<lparr>m_pierSide = PIER_WEST, m_RAm = 0, m_DECm = (90 + 0) * 3600\<rparr> 10
             = Some ''+00:00:00''"
proof -
  define v where "v = (if m_pierSide p = PIER_EAST then 90 * 3600 - m_DECm p
                else m_DECm p - 90 * 3600)"
  have deg: "deg = (v sdiv 3600) smod 256"
    using assms(2,3) by (simp add: v_def smod_small)
  have 1: "\<exists>rest. length rest = 6 \<and>
            toStringDEC p n
              = Some ((if 0 \<le> deg then CHR ''+'' else CHR ''-'')
                       # digit_char (\<bar>deg\<bar> div 10) # digit_char (\<bar>deg\<bar> mod 10) # rest)"
    using toStringDEC_text [OF assms(1) v_def deg] by simp
  have 2: "\<forall>t. 10 \<le> t \<and> t \<le> 25
              \<longrightarrow> high_digit_switch t = Some (char_of (of_char CHR '':'' + (t - 10)))"
    by (simp add: high_digit_switch_digit_char digit_char_def)
  have 3: "toStringDEC \<lparr>m_pierSide = PIER_WEST, m_RAm = 0, m_DECm = (90 + 230) * 3600\<rparr> 10
             = Some ''+G0:00:00''"
    "toStringDEC \<lparr>m_pierSide = PIER_WEST, m_RAm = 0, m_DECm = (90 + 9) * 3600\<rparr> 10
             = Some ''+09:00:00''"
    "toStringDEC \<lparr>m_pierSide = PIER_WEST, m_RAm = 0, m_DECm = (90 + 0) * 3600\<rparr> 10
             = Some ''+00:00:00''"
    by code_simp+
  from 1 2 3 digit_char_table(3) show ?thesis by blast
qed

theorem toStringDEC_high_digit_witness:
  "(10 :: nat) \<le> 10 \<and> \<bar>235 :: int\<bar> \<le> 255
   \<and> (\<exists>rest. length rest = 6 \<and>
         toStringDEC \<lparr>m_pierSide = PIER_WEST, m_RAm = 0, m_DECm = (90 + 235) * 3600 + 125\<rparr> 10
           = Some (CHR ''+'' # CHR ''G'' # CHR ''5'' # rest))"
proof -
  have deg: "(235 :: int)
      = (if m_pierSide \<lparr>m_pierSide = PIER_WEST, m_RAm = 0, m_DECm = (90 + 235) * 3600 + 125\<rparr> = PIER_EAST
         then 90 * 3600 - m_DECm \<lparr>m_pierSide = PIER_WEST, m_RAm = 0, m_DECm = (90 + 235) * 3600 + 125\<rparr>
         else m_DECm \<lparr>m_pierSide = PIER_WEST, m_RAm = 0, m_DECm = (90 + 235) * 3600 + 125\<rparr> - 90 * 3600)
        sdiv 3600"
    by (simp add: signed_divide_int_def)
  have chars: "digit_char 23 = CHR ''G''" "digit_char 5 = CHR ''5''"
    by (simp_all add: digit_char_def char_of_def)
  show ?thesis
    using toStringDEC_high_digit [of 10 235, OF _ deg] chars by auto
qed

text \<open>A coordinate of 23 degrees is written with the digits 2 and 3, and one of 256
  degrees, as the mount can report it, is written as 0 degrees.\<close>

theorem toStringDEC_high_digit_counterexample:
  "toStringDEC \<lparr>m_pierSide = PIER_WEST, m_RAm = 0, m_DECm = (90 + 23) * 3600\<rparr> 10
     = Some ''+23:00:00''
   \<and> parseStringDEC \<lparr>m_pierSide = PIER_WEST, m_RAm = 0, m_DECm = 0\<rparr> ''+I6:00:00'' 64
     = (False, \<lparr>m_pierSide = PIER_WEST, m_RAm = 0, m_DECm = (90 + 256) * 3600\<rparr>)
   \<and> toStringDEC \<lparr>m_pierSide = PIER_WEST, m_RAm = 0, m_DECm = (90 + 256) * 3600\<rparr> 10
     = Some ''+00:00:00''"
  by code_simp

subsection \<open>Reading a right ascension\<close>

lemma isdigit_not_space: "isdigit c \<Longrightarrow> \<not> isspace c"
  by (auto simp add: isdigit_def isspace_def)

lemma isdigit_not_sign: "isdigit c \<Longrightarrow> c \<noteq> CHR ''-'' \<and> c \<noteq> CHR ''+''"
  by (auto simp add: isdigit_def)

lemma isdigit_digit_val:
  assumes "isdigit c"
  shows "0 \<le> digit_val c \<and> digit_val c \<le> 9"
proof -
  have "(of_char c :: int) = int (of_char c)" by (simp add: of_nat_of_char)
  then show ?thesis using assms by (simp add: isdigit_def digit_val_def)
qed

lemma scan_d2_two_digits:
  assumes "isdigit a" "isdigit b"
  shows "scan_d2 (a # b # r) = Some (digit_val a * 10 + digit_val b, r)"
  using assms isdigit_not_space [of a] isdigit_not_sign [of a]
  by (simp add: scan_d2_def)

lemma scan_d2_range:
  assumes "scan_d2 s = Some (v, r)"
  shows "- 9 \<le> v \<and> v \<le> 99"
proof (cases "dropWhile isspace s")
  case Nil
  show ?thesis using assms unfolding scan_d2_def Nil by simp
next
  case (Cons c t)
  show ?thesis
  proof (cases t)
    case Nil
    show ?thesis
      using assms isdigit_digit_val [of c] unfolding scan_d2_def Cons Nil
      by (auto split: if_splits)
  next
    case c2: (Cons d t')
    show ?thesis
      using assms isdigit_digit_val [of c] isdigit_digit_val [of d] unfolding scan_d2_def Cons c2
      by (auto split: if_splits)
  qed
qed

lemma sscanf_three_values:
  assumes "sscanf_d2_d2_d2 buf = [h, m, s]"
  shows "- 9 \<le> h \<and> h \<le> 99 \<and> - 9 \<le> m \<and> m \<le> 99 \<and> - 9 \<le> s \<and> s \<le> 99"
  using assms
  by (auto simp add: sscanf_d2_d2_d2_def split: option.splits prod.splits dest: scan_d2_range)

lemma sscanf_exact_pattern:
  assumes "isdigit h1" "isdigit h2" "isdigit m1" "isdigit m2" "isdigit s1" "isdigit s2"
  shows "sscanf_d2_d2_d2 (h1 # h2 # CHR '':'' # m1 # m2 # CHR '':'' # s1 # s2 # rest)
           = [digit_val h1 * 10 + digit_val h2, digit_val m1 * 10 + digit_val m2,
              digit_val s1 * 10 + digit_val s2]"
  using assms by (simp add: sscanf_d2_d2_d2_def scan_d2_two_digits scan_lit_def)

lemma parseStringRA_ticks_range:
  fixes off12 :: int
  assumes "- 9 \<le> h" "h \<le> 99" "- 9 \<le> m" "m \<le> 99" "- 9 \<le> s" "s \<le> (99 :: int)"
    and that: "off12 = - 12 * 3600 \<or> off12 = 0"
  shows "0 \<le> (off12 + 24 * 3600 + (h smod 24) * 3600 + m * 60 + s) smod (24 * 3600)
       \<and> (off12 + 24 * 3600 + (h smod 24) * 3600 + m * 60 + s) smod (24 * 3600) < 86400"
proof -
  have "- 9 \<le> h smod 24"
  proof (cases "0 \<le> h")
    case True
    have "0 \<le> h mod 24" by simp
    then show ?thesis using True by (simp add: sdiv_smod_nonneg)
  next
    case False
    then have "(- h) mod 24 \<le> - h" by (simp add: zmod_le_nonneg_dividend)
    then show ?thesis using False assms(1) by (simp add: signed_modulo_int_def sgn_if)
  qed
  then have "0 \<le> off12 + 24 * 3600 + (h smod 24) * 3600 + m * 60 + s"
    using that assms by auto
  then show ?thesis by (simp add: sdiv_smod_nonneg)
qed


lemma parseStringRA_success:
  assumes "sscanf_d2_d2_d2 buf = [h, m, s]" "8 \<le> n"
  shows "parseStringRA p buf n
           = (False,
              p\<lparr>m_RAm := ((if m_pierSide p = PIER_WEST then - 12 * 3600 else 0) + 24 * 3600
                            + (h smod 24) * 3600 + m * 60 + s) smod (24 * 3600)\<rparr>)"
  using assms by (simp add: parseStringRA_def)

text \<open>
  Claim C5, as the code has it. \<^verbatim>\<open>parseStringRA\<close> accepts every text that starts with
  the two-digit triplet \<open>HH:MM:SS\<close> and sets the RA ticks to the seconds of that time, 12
  hours less when the pier side is WEST, modulo 24 hours. Whenever it fails, the point is
  unchanged. It succeeds exactly when \<^verbatim>\<open>sscanf\<close> assigns three values, and then the
  RA ticks are in \<open>[0, 86400)\<close> and nothing else changes.
\<close>

theorem parseStringRA_accepts_triplet:
  "(8 \<le> n \<and> isdigit h1 \<and> isdigit h2 \<and> isdigit m1 \<and> isdigit m2 \<and> isdigit s1 \<and> isdigit s2
      \<longrightarrow> parseStringRA p (h1 # h2 # CHR '':'' # m1 # m2 # CHR '':'' # s1 # s2 # rest) n
            = (False,
               p\<lparr>m_RAm :=
                   ((if m_pierSide p = PIER_WEST then - 12 * 3600 else 0) + 24 * 3600
                     + ((digit_val h1 * 10 + digit_val h2) mod 24) * 3600
                     + (digit_val m1 * 10 + digit_val m2) * 60
                     + (digit_val s1 * 10 + digit_val s2)) mod (24 * 3600)\<rparr>))
   \<and> (fst (parseStringRA p buf n) \<longrightarrow> snd (parseStringRA p buf n) = p)
   \<and> (\<not> fst (parseStringRA p buf n) \<longleftrightarrow> 8 \<le> n \<and> length (sscanf_d2_d2_d2 buf) = 3)
   \<and> (\<not> fst (parseStringRA p buf n)
        \<longrightarrow> 0 \<le> m_RAm (snd (parseStringRA p buf n))
          \<and> m_RAm (snd (parseStringRA p buf n)) < 86400
          \<and> m_DECm (snd (parseStringRA p buf n)) = m_DECm p
          \<and> m_pierSide (snd (parseStringRA p buf n)) = m_pierSide p)"
proof (intro conjI impI)
  assume a: "8 \<le> n \<and> isdigit h1 \<and> isdigit h2 \<and> isdigit m1 \<and> isdigit m2 \<and> isdigit s1 \<and> isdigit s2"
  let ?h = "digit_val h1 * 10 + digit_val h2"
  let ?m = "digit_val m1 * 10 + digit_val m2"
  let ?s = "digit_val s1 * 10 + digit_val s2"
  have scan: "sscanf_d2_d2_d2 (h1 # h2 # CHR '':'' # m1 # m2 # CHR '':'' # s1 # s2 # rest) = [?h, ?m, ?s]"
    using a by (simp add: sscanf_exact_pattern)
  have h: "0 \<le> ?h" and m: "0 \<le> ?m" and s: "0 \<le> ?s"
    using a isdigit_digit_val [of h1] isdigit_digit_val [of h2] isdigit_digit_val [of m1]
      isdigit_digit_val [of m2] isdigit_digit_val [of s1] isdigit_digit_val [of s2]
    by simp_all
  have hm: "?h smod 24 = ?h mod 24" using h by (simp add: sdiv_smod_nonneg)
  have "0 \<le> ?h mod 24" by simp
  then have "0 \<le> (if m_pierSide p = PIER_WEST then - 12 * 3600 else 0) + 24 * 3600
                     + (?h mod 24) * 3600 + ?m * 60 + ?s"
    using m s by simp
  then have "((if m_pierSide p = PIER_WEST then - 12 * 3600 else 0) + 24 * 3600
                     + (?h mod 24) * 3600 + ?m * 60 + ?s) smod (24 * 3600)
           = ((if m_pierSide p = PIER_WEST then - 12 * 3600 else 0) + 24 * 3600
                     + (?h mod 24) * 3600 + ?m * 60 + ?s) mod (24 * 3600)"
    by (simp add: sdiv_smod_nonneg)
  then show "parseStringRA p (h1 # h2 # CHR '':'' # m1 # m2 # CHR '':'' # s1 # s2 # rest) n
            = (False,
               p\<lparr>m_RAm :=
                   ((if m_pierSide p = PIER_WEST then - 12 * 3600 else 0) + 24 * 3600
                     + (?h mod 24) * 3600 + ?m * 60 + ?s) mod (24 * 3600)\<rparr>)"
    using a parseStringRA_success [OF scan, of n p] by (simp only: hm)
next
  assume "fst (parseStringRA p buf n)"
  then show "snd (parseStringRA p buf n) = p"
    by (auto simp add: parseStringRA_def split: if_splits list.splits)
next
  show "\<not> fst (parseStringRA p buf n) \<longleftrightarrow> 8 \<le> n \<and> length (sscanf_d2_d2_d2 buf) = 3"
    by (auto simp add: parseStringRA_def split: if_splits list.splits)
next
  assume ok: "\<not> fst (parseStringRA p buf n)"
  then obtain h m s where scan: "sscanf_d2_d2_d2 buf = [h, m, s]" and n: "8 \<le> n"
    by (auto simp add: parseStringRA_def split: if_splits list.splits)
  have off: "(if m_pierSide p = PIER_WEST then - 12 * 3600 else 0) = - 12 * 3600
      \<or> (if m_pierSide p = PIER_WEST then - 12 * 3600 else 0) = (0 :: int)"
    by simp
  have r: "- 9 \<le> h \<and> h \<le> 99 \<and> - 9 \<le> m \<and> m \<le> 99 \<and> - 9 \<le> s \<and> s \<le> 99"
    using scan by (rule sscanf_three_values)
  have eq: "snd (parseStringRA p buf n)
      = p\<lparr>m_RAm := ((if m_pierSide p = PIER_WEST then - 12 * 3600 else 0) + 24 * 3600
                    + (h smod 24) * 3600 + m * 60 + s) smod (24 * 3600)\<rparr>"
    using parseStringRA_success [OF scan n, of p] by (simp only: snd_conv)
  show "0 \<le> m_RAm (snd (parseStringRA p buf n))" "m_RAm (snd (parseStringRA p buf n)) < 86400"
    "m_DECm (snd (parseStringRA p buf n)) = m_DECm p"
    "m_pierSide (snd (parseStringRA p buf n)) = m_pierSide p"
    unfolding eq using parseStringRA_ticks_range [OF _ _ _ _ _ _ off, of h m s] r by simp_all
qed

theorem parseStringRA_accepts_triplet_witness:
  "parseStringRA \<lparr>m_pierSide = PIER_WEST, m_RAm = 0, m_DECm = 0\<rparr> ''02:34:56'' 64
     = (False, \<lparr>m_pierSide = PIER_WEST, m_RAm = 52496, m_DECm = 0\<rparr>)
   \<and> fst (parseStringRA \<lparr>m_pierSide = PIER_WEST, m_RAm = 7, m_DECm = 0\<rparr> ''12-34-56'' 64)
   \<and> snd (parseStringRA \<lparr>m_pierSide = PIER_WEST, m_RAm = 7, m_DECm = 0\<rparr> ''12-34-56'' 64)
       = \<lparr>m_pierSide = PIER_WEST, m_RAm = 7, m_DECm = 0\<rparr>"
proof -
  have d: "isdigit CHR ''0''" "isdigit CHR ''2''" "isdigit CHR ''3''" "isdigit CHR ''4''"
    "isdigit CHR ''5''" "isdigit CHR ''6''"
    by (simp_all add: isdigit_def)
  have f: "fst (parseStringRA \<lparr>m_pierSide = PIER_WEST, m_RAm = 7, m_DECm = 0\<rparr> ''12-34-56'' 64)"
    by code_simp
  show ?thesis
    using d f
      parseStringRA_accepts_triplet [where n = 64 and ?h1.0 = "CHR ''0''" and ?h2.0 = "CHR ''2''"
        and ?m1.0 = "CHR ''3''" and ?m2.0 = "CHR ''4''" and ?s1.0 = "CHR ''5''"
        and ?s2.0 = "CHR ''6''" and rest = "[]"
        and p = "\<lparr>m_pierSide = PIER_WEST, m_RAm = 0, m_DECm = 0\<rparr>"]
      parseStringRA_accepts_triplet [where n = 64 and buf = "''12-34-56''"
        and p = "\<lparr>m_pierSide = PIER_WEST, m_RAm = 7, m_DECm = 0\<rparr>"]
    by (simp add: digit_val_def)
qed

text \<open>A text of single digits is no two-digit triplet, and it is accepted.\<close>

theorem parseStringRA_single_digits_counterexample:
  "parseStringRA \<lparr>m_pierSide = PIER_EAST, m_RAm = 0, m_DECm = 0\<rparr> ''1:2:3'' 64
     = (False, \<lparr>m_pierSide = PIER_EAST, m_RAm = 3723, m_DECm = 0\<rparr>)"
  by code_simp

subsection \<open>Writing a declination and reading it back\<close>

lemma of_char_digit_char:
  assumes "0 \<le> n" "n < 208"
  shows "(of_char (digit_char n) :: int) = 48 + n" "(of_char (digit_char n) :: nat) = 48 + nat n"
proof -
  show i: "(of_char (digit_char n) :: int) = 48 + n"
    using assms by (simp add: digit_char_def)
  have "int (of_char (digit_char n)) = (of_char (digit_char n) :: int)"
    by (simp add: of_nat_of_char)
  then show "(of_char (digit_char n) :: nat) = 48 + nat n"
    using i assms by linarith
qed

lemma digit_char_props:
  assumes "0 \<le> n" "n \<le> 9"
  shows "isdigit (digit_char n)" "digit_val (digit_char n) = n" "\<not> isspace (digit_char n)"
    "digit_char n \<noteq> NUL" "digit_char n \<noteq> CHR ''-''" "digit_char n \<noteq> CHR ''+''"
proof -
  have n: "(of_char (digit_char n) :: nat) = 48 + nat n" "(of_char (digit_char n) :: int) = 48 + n"
    using of_char_digit_char [of n] assms by simp_all
  have n9: "nat n \<le> 9" using assms by simp
  show "isdigit (digit_char n)" using n9 by (simp add: isdigit_def n)
  show "digit_val (digit_char n) = n" by (simp add: digit_val_def n)
  show "\<not> isspace (digit_char n)" using assms by (simp add: isspace_def n)
  have "(of_char (digit_char n) :: nat) \<noteq> of_char NUL" using assms by (simp add: n NUL_def)
  then show "digit_char n \<noteq> NUL" by auto
  have "(of_char (digit_char n) :: nat) \<noteq> of_char CHR ''-''" using assms by (simp add: n)
  then show "digit_char n \<noteq> CHR ''-''" by auto
  have "(of_char (digit_char n) :: nat) \<noteq> of_char CHR ''+''" using assms by (simp add: n)
  then show "digit_char n \<noteq> CHR ''+''" by auto
qed

lemma atoi_two_digits:
  assumes "0 \<le> a" "a \<le> 9" "0 \<le> b" "b \<le> 9"
  shows "atoi [digit_char a, digit_char b] = a * 10 + b"
  using digit_char_props [OF assms(1,2)] digit_char_props [OF assms(3,4)]
  by (simp add: atoi_def)

lemma atoi_three_digits:
  assumes "0 \<le> a" "a \<le> 9" "0 \<le> b" "b \<le> 9" "0 \<le> c" "c \<le> 9"
  shows "atoi [digit_char a, digit_char b, digit_char c] = a * 100 + b * 10 + c"
  using digit_char_props [OF assms(1,2)] digit_char_props [OF assms(3,4)]
    digit_char_props [OF assms(5,6)]
  by (simp add: atoi_def)

lemma high_digit_decode_digit_char:
  assumes "0 \<le> t" "t \<le> 25"
  shows "high_digit_decode (digit_char t) = (digit_char (t div 10), digit_char (t mod 10))"
proof -
  have "t = 0 \<or> t = 1 \<or> t = 2 \<or> t = 3 \<or> t = 4 \<or> t = 5 \<or> t = 6 \<or> t = 7 \<or> t = 8 \<or> t = 9
      \<or> t = 10 \<or> t = 11 \<or> t = 12 \<or> t = 13 \<or> t = 14 \<or> t = 15 \<or> t = 16 \<or> t = 17
      \<or> t = 18 \<or> t = 19 \<or> t = 20 \<or> t = 21 \<or> t = 22 \<or> t = 23 \<or> t = 24 \<or> t = 25"
    using assms by arith
  then show ?thesis
    by (elim disjE) (simp_all add: high_digit_decode_def digit_char_def char_of_def)
qed


lemma digit_char_not_NUL:
  assumes "0 \<le> n" "n < 208"
  shows "digit_char n \<noteq> NUL"
proof -
  have "(of_char (digit_char n) :: nat) \<noteq> of_char NUL"
    using of_char_digit_char(2) [OF assms] by (simp add: NUL_def)
  then show ?thesis by auto
qed

lemma sign_chars_not_NUL: "CHR ''+'' \<noteq> NUL" "CHR ''-'' \<noteq> NUL" "CHR '':'' \<noteq> NUL"
  by (simp_all add: NUL_def char_of_def)

lemma three_digits_value:
  fixes D :: int
  assumes "0 \<le> D"
  shows "D div 10 div 10 * 100 + D div 10 mod 10 * 10 + D mod 10 = D"
  by presburger

lemma parse_array:
  assumes "c2 \<noteq> NUL" "c4 \<noteq> NUL" "c5 \<noteq> NUL" "c7 \<noteq> NUL" "c8 \<noteq> NUL" "d0 \<noteq> NUL" "d1 \<noteq> NUL"
  shows "c_str_at ([c0, c1, c2, c3, c4, c5, c6, c7, c8, c9][0 := d0, 1 := d1, 3 := NUL, 6 := NUL, 9 := NUL]) 0 = [d0, d1, c2]"
   "c_str_at ([c0, c1, c2, c3, c4, c5, c6, c7, c8, c9][0 := d0, 1 := d1, 3 := NUL, 6 := NUL, 9 := NUL]) 4 = [c4, c5]"
   "c_str_at ([c0, c1, c2, c3, c4, c5, c6, c7, c8, c9][0 := d0, 1 := d1, 3 := NUL, 6 := NUL, 9 := NUL]) 7 = [c7, c8]"
   "[c0, c1, c2, c3, c4, c5, c6, c7, c8, c9] ! 1 = c1"
   "[c0, c1, c2, c3, c4, c5, c6, c7, c8, c9] ! 0 = c0"
  using assms by (simp_all add: c_str_at_def numeral_eq_Suc)



lemma parseStringDEC_array:
  assumes "9 \<le> m"
    and "strncpy buf 10 = [c0, c1, c2, c3, c4, c5, c6, c7, c8, c9]"
    and "\<not> ((of_char c1 :: nat) < of_char CHR ''0'' \<or> (of_char CHR ''I'' :: nat) < of_char c1)"
    and "high_digit_decode c1 = (d0, d1)"
    and "c2 \<noteq> NUL" "c4 \<noteq> NUL" "c5 \<noteq> NUL" "c7 \<noteq> NUL" "c8 \<noteq> NUL" "d0 \<noteq> NUL" "d1 \<noteq> NUL"
  shows "parseStringDEC p buf m
         = (False,
            p\<lparr>m_DECm := 90 * 3600
                + (if m_pierSide p = PIER_EAST then - 1 else 1) * (if c0 = CHR ''-'' then - 1 else 1)
                    * (atoi [d0, d1, c2] * 3600 + atoi [c4, c5] * 60 + atoi [c7, c8])\<rparr>)"
proof -
  have arr: "c_str_at ([c0, c1, c2, c3, c4, c5, c6, c7, c8, c9][0 := d0, 1 := d1, 3 := NUL, 6 := NUL, 9 := NUL]) 0 = [d0, d1, c2]"
   "c_str_at ([c0, c1, c2, c3, c4, c5, c6, c7, c8, c9][0 := d0, 1 := d1, 3 := NUL, 6 := NUL, 9 := NUL]) 4 = [c4, c5]"
   "c_str_at ([c0, c1, c2, c3, c4, c5, c6, c7, c8, c9][0 := d0, 1 := d1, 3 := NUL, 6 := NUL, 9 := NUL]) 7 = [c7, c8]"
    using assms(5-11) by (rule parse_array)+
  have nth: "[c0, c1, c2, c3, c4, c5, c6, c7, c8, c9] ! 1 = c1"
    "[c0, c1, c2, c3, c4, c5, c6, c7, c8, c9] ! 0 = c0"
    by simp_all
  have m: "\<not> m < 9" using assms(1) by simp
  show ?thesis
    unfolding parseStringDEC_def Let_def assms(2) nth assms(4) fst_conv snd_conv arr
    using m assms(3) by (simp only: if_False)
qed


text \<open>Reading a text of the form that toStringDEC writes.\<close>

lemma parseStringDEC_of_text:
  assumes m: "9 \<le> m" and D: "0 \<le> D" "D \<le> 255" and M: "0 \<le> M" "M < 60"
    and S: "0 \<le> S" "S < 60" and sg: "sg = CHR ''+'' \<or> sg = CHR ''-''"
  shows "parseStringDEC p
           [sg, digit_char (D div 10), digit_char (D mod 10), CHR '':'',
            digit_char (M div 10), digit_char (M mod 10), CHR '':'',
            digit_char (S div 10), digit_char (S mod 10)] m
         = (False,
            p\<lparr>m_DECm := 90 * 3600
                + (if m_pierSide p = PIER_EAST then - 1 else 1) * (if sg = CHR ''-'' then - 1 else 1)
                    * (D * 3600 + M * 60 + S)\<rparr>)"
proof -
  define t where "t = D div 10"
  have t: "0 \<le> t" "t \<le> 25" using D by (simp_all add: t_def)
  have tt: "0 \<le> t div 10" "t div 10 \<le> 9" "0 \<le> t mod 10" "t mod 10 \<le> 9" using t by simp_all
  have lo: "0 \<le> D mod 10" "D mod 10 \<le> 9" by simp_all
  have mm: "0 \<le> M div 10" "M div 10 \<le> 9" "0 \<le> M mod 10" "M mod 10 \<le> 9" using M by simp_all
  have ss: "0 \<le> S div 10" "S div 10 \<le> 9" "0 \<le> S mod 10" "S mod 10 \<le> 9" using S by simp_all
  have n0: "sg \<noteq> NUL" using sg sign_chars_not_NUL by auto
  have n1: "digit_char t \<noteq> NUL" using digit_char_not_NUL [of t] t by simp
  have n2: "digit_char (D mod 10) \<noteq> NUL" using digit_char_not_NUL [of "D mod 10"] lo by simp
  have n3: "digit_char (M div 10) \<noteq> NUL" using digit_char_not_NUL [of "M div 10"] mm by simp
  have n4: "digit_char (M mod 10) \<noteq> NUL" using digit_char_not_NUL [of "M mod 10"] mm by simp
  have n5: "digit_char (S div 10) \<noteq> NUL" using digit_char_not_NUL [of "S div 10"] ss by simp
  have n6: "digit_char (S mod 10) \<noteq> NUL" using digit_char_not_NUL [of "S mod 10"] ss by simp
  have n7: "digit_char (t div 10) \<noteq> NUL" using digit_char_not_NUL [of "t div 10"] tt by simp
  have n8: "digit_char (t mod 10) \<noteq> NUL" using digit_char_not_NUL [of "t mod 10"] tt by simp
  let ?txt = "[sg, digit_char t, digit_char (D mod 10), CHR '':'',
            digit_char (M div 10), digit_char (M mod 10), CHR '':'',
            digit_char (S div 10), digit_char (S mod 10)]"
  have cpy: "strncpy ?txt 10
      = [sg, digit_char t, digit_char (D mod 10), CHR '':'',
            digit_char (M div 10), digit_char (M mod 10), CHR '':'',
            digit_char (S div 10), digit_char (S mod 10), NUL]"
    using n0 n1 n2 n3 n4 n5 n6 sign_chars_not_NUL(3) by (simp add: strncpy_def)
  have rng: "\<not> ((of_char (digit_char t) :: nat) < of_char CHR ''0''
             \<or> (of_char CHR ''I'' :: nat) < of_char (digit_char t))"
    using of_char_digit_char(2) [of t] t by simp
  have dec: "high_digit_decode (digit_char t) = (digit_char (t div 10), digit_char (t mod 10))"
    using t by (rule high_digit_decode_digit_char)
  have deg: "atoi [digit_char (t div 10), digit_char (t mod 10), digit_char (D mod 10)] = D"
    using atoi_three_digits [OF tt lo] three_digits_value [OF D(1)] by (simp add: t_def)
  have mins: "atoi [digit_char (M div 10), digit_char (M mod 10)] = M"
    using atoi_two_digits [OF mm] by simp
  have secs: "atoi [digit_char (S div 10), digit_char (S mod 10)] = S"
    using atoi_two_digits [OF mm(1,2)] atoi_two_digits [OF ss] by simp
  show ?thesis
    unfolding t_def [symmetric]
    by (simp only: parseStringDEC_array [OF m cpy rng dec n2 n3 n4 n5 n6 n7 n8] deg mins secs)
qed


lemma sdiv_3600_abs:
  fixes v :: int
  shows "\<bar>v sdiv 3600\<bar> = \<bar>v\<bar> div 3600" "0 \<le> v \<Longrightarrow> 0 \<le> v sdiv 3600"
    "v \<le> - 3600 \<Longrightarrow> v sdiv 3600 < 0"
proof -
  show "\<bar>v sdiv 3600\<bar> = \<bar>v\<bar> div 3600"
    by (simp add: signed_divide_int_def abs_mult sgn_if)
  show "0 \<le> v \<Longrightarrow> 0 \<le> v sdiv 3600"
    by (simp add: signed_divide_int_def sgn_if)
  assume neg: "v \<le> - 3600"
  then have "1 \<le> (- v) div 3600" by (simp add: pos_imp_zdiv_pos_iff)
  then show "v sdiv 3600 < 0" using neg
    by (simp add: signed_divide_int_def sgn_if)
qed

lemma hms_value:
  fixes a :: int
  assumes "0 \<le> a"
  shows "a div 3600 * 3600 + a div 60 mod 60 * 60 + a mod 60 = a"
proof -
  have "a div 60 div 60 = a div (60 * 60)"
    by (rule zdiv_zmult2_eq [symmetric]) simp
  then have 1: "a div 60 div 60 = a div 3600" by simp
  have 2: "a div 60 mod 60 = a div 60 - a div 60 div 60 * 60"
    by (simp add: minus_div_mult_eq_mod)
  have 3: "a div 60 * 60 + a mod 60 = a" by simp
  show ?thesis unfolding 2 1 using 3 by (simp add: algebra_simps)
qed

text \<open>A declination written and read back is the same, unless the signed value lies
  between \<open>-1\<close> degree and 0, both excluded, where the sign is lost.\<close>

lemma DEC_round_trip:
  assumes n: "10 \<le> n" and m: "9 \<le> m"
    and v: "v = (if m_pierSide p = PIER_EAST then 90 * 3600 - m_DECm p else m_DECm p - 90 * 3600)"
    and range: "\<bar>v\<bar> < 256 * 3600" and sign: "0 \<le> v \<or> v \<le> - 3600"
  shows "\<exists>txt. toStringDEC p n = Some txt \<and> parseStringDEC p txt m = (False, p)"
proof -
  define deg where "deg = (v sdiv 3600) smod 256"
  have "\<bar>v sdiv 3600\<bar> < 256" using range by (simp add: sdiv_3600_abs(1))
  then have deg: "deg = v sdiv 3600" by (simp add: deg_def smod_small)
  define D where "D = \<bar>deg\<bar>"
  define M where "M = (\<bar>v\<bar> div 60) mod 60"
  define S where "S = \<bar>v\<bar> mod 60"
  define sg where "sg = (if 0 \<le> deg then CHR ''+'' else CHR ''-'')"
  have D: "0 \<le> D" "D \<le> 255" "D = \<bar>v\<bar> div 3600"
    using range by (simp_all add: D_def deg sdiv_3600_abs(1))
  have M: "0 \<le> M" "M < 60" and S: "0 \<le> S" "S < 60" by (simp_all add: M_def S_def)
  have sg: "sg = CHR ''+'' \<or> sg = CHR ''-''" by (simp add: sg_def)
  have enc: "toStringDEC p n
      = Some [sg, digit_char (D div 10), digit_char (D mod 10), CHR '':'',
            digit_char (M div 10), digit_char (M mod 10), CHR '':'',
            digit_char (S div 10), digit_char (S mod 10)]"
    using toStringDEC_text [OF n v deg_def] by (simp add: D_def M_def S_def sg_def)
  have mag: "D * 3600 + M * 60 + S = \<bar>v\<bar>"
    using hms_value [of "\<bar>v\<bar>"] by (simp add: D(3) M_def S_def)
  have signed: "(if sg = CHR ''-'' then - 1 else 1) * \<bar>v\<bar> = v"
  proof (cases "0 \<le> v")
    case True
    then have "0 \<le> deg" by (simp add: deg sdiv_3600_abs(2))
    then show ?thesis using True by (simp add: sg_def)
  next
    case False
    then have "v \<le> - 3600" using sign by simp
    then have "deg < 0" by (simp add: deg sdiv_3600_abs(3))
    then show ?thesis using False by (simp add: sg_def)
  qed
  have same: "90 * 3600
                + (if m_pierSide p = PIER_EAST then - 1 else 1) * (if sg = CHR ''-'' then - 1 else 1)
                    * (D * 3600 + M * 60 + S) = m_DECm p"
    unfolding mag mult.assoc signed by (simp add: v)
  have "parseStringDEC p [sg, digit_char (D div 10), digit_char (D mod 10), CHR '':'',
            digit_char (M div 10), digit_char (M mod 10), CHR '':'',
            digit_char (S div 10), digit_char (S mod 10)] m = (False, p)"
    unfolding parseStringDEC_of_text [OF m D(1,2) M S sg] same by simp
  then show ?thesis using enc by simp
qed

lemma to_double_of_int: "\<bar>m\<bar> < 2 ^ 53 \<Longrightarrow> to_double (of_int m) = of_int m"
  using to_double_exact [of m 0] by simp

text \<open>The ticks of a declination from 0 to \<open>u\<close> degrees.\<close>

lemma DECm_set_upper:
  assumes d: "0 \<le> d" "d \<le> of_int u" and u: "u \<le> 255"
  shows "0 \<le> m_DECm (DECm_set p d) \<and> m_DECm (DECm_set p d) \<le> u * 3600"
proof -
  have u0: "0 \<le> u" using d by linarith
  have b: "\<bar>256 + u\<bar> < 2 ^ 53" "\<bar>u * 3600\<bar> < 2 ^ 53" using u u0 by simp_all
  have c: "to_double 256 = 256" "to_double (256 + of_int u) = 256 + of_int u"
    "to_double (of_int u * 3600) = of_int u * 3600"
    using to_double_of_int [of 256] to_double_of_int [OF b(1)] to_double_of_int [OF b(2)]
    by simp_all
  have "256 \<le> d + 256" "d + 256 \<le> 256 + of_int u" using d by simp_all
  then have y: "256 \<le> to_double (d + 256) \<and> to_double (d + 256) \<le> 256 + of_int u"
    using to_double_between [of 256 "d + 256" "256 + of_int u"] c by simp
  have "(of_int u :: real) \<le> of_int 255" using u by (simp only: of_int_le_iff)
  then have "to_double (d + 256) < 2 * 256" using y by simp
  then have "fmod (to_double (d + 256)) 256 = to_double (d + 256) - 256"
    using y by (intro fmod_second_period) simp_all
  then have "0 \<le> fmod (to_double (d + 256)) 256 * 3600"
    "fmod (to_double (d + 256)) 256 * 3600 \<le> of_int u * 3600"
    using y by simp_all
  then have "0 \<le> to_double (fmod (to_double (d + 256)) 256 * 3600)
      \<and> to_double (fmod (to_double (d + 256)) 256 * 3600) \<le> of_int u * 3600"
    using to_double_between [of 0 _ "of_int u * 3600"] c by simp
  then show ?thesis
    using lround_between [of 0 "to_double (fmod (to_double (d + 256)) 256 * 3600)" "u * 3600"]
    by (simp add: DECm_set_def)
qed

text \<open>The ticks of a declination below 0, down to \<open>-90\<close> degrees: the sum with 256 may
  round to 256, and then the ticks are 0.\<close>

lemma DECm_set_lower:
  assumes d: "- 90 \<le> d" "d < 0"
  shows "m_DECm (DECm_set p d) = 0
       \<or> 597600 \<le> m_DECm (DECm_set p d) \<and> m_DECm (DECm_set p d) \<le> 921600"
proof -
  have c: "to_double 166 = 166" "to_double 256 = 256" "to_double 597600 = 597600"
    "to_double 921600 = 921600"
    using to_double_of_int [of 166] to_double_of_int [of 256] to_double_of_int [of 597600]
      to_double_of_int [of 921600]
    by simp_all
  have "166 \<le> d + 256" "d + 256 \<le> 256" using d by simp_all
  then have y: "166 \<le> to_double (d + 256) \<and> to_double (d + 256) \<le> 256"
    using to_double_between [of 166 "d + 256" 256] c by simp
  show ?thesis
  proof (cases "to_double (d + 256) = 256")
    case True
    have "fmod 256 256 = 0" by (simp add: fmod_def trunc_def)
    then show ?thesis by (simp add: DECm_set_def True lround_def)
  next
    case False
    then have lt: "to_double (d + 256) < 256" using y by simp
    then have "fmod (to_double (d + 256)) 256 = to_double (d + 256)"
      using y by (intro fmod_first_period) simp_all
    then have "597600 \<le> fmod (to_double (d + 256)) 256 * 3600"
      "fmod (to_double (d + 256)) 256 * 3600 \<le> 921600"
      using y by simp_all
    then have "of_int 597600 \<le> to_double (fmod (to_double (d + 256)) 256 * 3600)
        \<and> to_double (fmod (to_double (d + 256)) 256 * 3600) \<le> of_int 921600"
      using to_double_between [of 597600 _ 921600] c by simp
    then show ?thesis
      using lround_between [of 597600 "to_double (fmod (to_double (d + 256)) 256 * 3600)" 921600]
      by (simp add: DECm_set_def)
  qed
qed

lemma DECm_set_ticks:
  assumes "- 90 \<le> d" "d \<le> 90"
  shows "(0 \<le> d \<longrightarrow> 0 \<le> m_DECm (DECm_set p d) \<and> m_DECm (DECm_set p d) \<le> 324000)
       \<and> (d < 0 \<longrightarrow> m_DECm (DECm_set p d) = 0
             \<or> 597600 \<le> m_DECm (DECm_set p d) \<and> m_DECm (DECm_set p d) \<le> 921600)
       \<and> (d \<le> 89 \<longrightarrow> 0 \<le> d \<longrightarrow> m_DECm (DECm_set p d) \<le> 320400)
       \<and> (d = 90 \<longrightarrow> m_DECm (DECm_set p d) = 324000)"
proof -
  have 1: "0 \<le> d \<longrightarrow> 0 \<le> m_DECm (DECm_set p d) \<and> m_DECm (DECm_set p d) \<le> 324000"
    using DECm_set_upper [of d 90 p] assms by simp
  have 2: "d < 0 \<longrightarrow> m_DECm (DECm_set p d) = 0
             \<or> 597600 \<le> m_DECm (DECm_set p d) \<and> m_DECm (DECm_set p d) \<le> 921600"
    using DECm_set_lower [of d p] assms by simp
  have 3: "d \<le> 89 \<longrightarrow> 0 \<le> d \<longrightarrow> m_DECm (DECm_set p d) \<le> 320400"
    using DECm_set_upper [of d 89 p] by simp
  have "lround (to_double (fmod (to_double (90 + 256)) 256 * 3600)) = 324000" by code_simp
  then have 4: "d = 90 \<longrightarrow> m_DECm (DECm_set p d) = 324000"
    by (simp add: DECm_set_def)
  from 1 2 3 4 show ?thesis by blast
qed

text \<open>For every declination from \<open>-90\<close> to \<open>90\<close> degrees the round trip is exact with
  the pier side EAST, and with the other pier sides up to 89 degrees and at 90 degrees.\<close>

lemma DEC_round_trip_of_setter:
  assumes d: "- 90 \<le> d" "d \<le> 90" and side: "side = PIER_EAST \<or> d \<le> 89 \<or> d = 90"
    and n: "10 \<le> n" and m: "9 \<le> m"
  shows "\<exists>txt. toStringDEC (DECm_set (p\<lparr>m_pierSide := side\<rparr>) d) n = Some txt
           \<and> parseStringDEC (DECm_set (p\<lparr>m_pierSide := side\<rparr>) d) txt m
               = (False, DECm_set (p\<lparr>m_pierSide := side\<rparr>) d)"
proof -
  let ?q = "DECm_set (p\<lparr>m_pierSide := side\<rparr>) d"
  define v where "v = (if m_pierSide ?q = PIER_EAST then 90 * 3600 - m_DECm ?q
                       else m_DECm ?q - 90 * 3600)"
  have ps: "m_pierSide ?q = side" by (simp add: DECm_set_def)
  note t = DECm_set_ticks [OF d, of "p\<lparr>m_pierSide := side\<rparr>"]
  have range: "\<bar>v\<bar> < 256 * 3600"
    using t unfolding v_def ps by (cases "0 \<le> d") auto
  have sign: "0 \<le> v \<or> v \<le> - 3600"
  proof (cases "side = PIER_EAST")
    case True
    then show ?thesis using t unfolding v_def ps by (cases "0 \<le> d") auto
  next
    case False
    then have "d \<le> 89 \<or> d = 90" using side by simp
    then show ?thesis using t False unfolding v_def ps by (cases "0 \<le> d") auto
  qed
  show ?thesis by (rule DEC_round_trip [OF n m v_def range sign])
qed

text \<open>
  Claim C2, on the code. With the pier side WEST, \<open>89.5\<close> degrees are 322200 ticks,
  written as \<open>+00:30:00\<close>: the sign is the sign of the truncated degrees, which are 0. Read
  back, the text gives 325800 ticks, one degree away, which is 3600 times the granularity.
  This is the one range where the round trip fails, as the lemmas above show.
\<close>

theorem DEC_round_trip_west_loses_sign:
  "- 90 \<le> (895 / 10 :: real) \<and> (895 / 10 :: real) \<le> 90
   \<and> DECm_set \<lparr>m_pierSide = PIER_WEST, m_RAm = 0, m_DECm = 0\<rparr> (895 / 10)
       = \<lparr>m_pierSide = PIER_WEST, m_RAm = 0, m_DECm = 322200\<rparr>
   \<and> toStringDEC \<lparr>m_pierSide = PIER_WEST, m_RAm = 0, m_DECm = 322200\<rparr> 10 = Some ''+00:30:00''
   \<and> parseStringDEC \<lparr>m_pierSide = PIER_WEST, m_RAm = 0, m_DECm = 322200\<rparr> ''+00:30:00'' 64
       = (False, \<lparr>m_pierSide = PIER_WEST, m_RAm = 0, m_DECm = 325800\<rparr>)
   \<and> DEC_degrees_to \<lparr>m_pierSide = PIER_WEST, m_RAm = 0, m_DECm = 322200\<rparr>
         \<lparr>m_pierSide = PIER_WEST, m_RAm = 0, m_DECm = 325800\<rparr> = 1
   \<and> DEC_GRANULARITY = 1 / 3600"
proof -
  have 1: "DECm_set \<lparr>m_pierSide = PIER_WEST, m_RAm = 0, m_DECm = 0\<rparr> (895 / 10)
       = \<lparr>m_pierSide = PIER_WEST, m_RAm = 0, m_DECm = 322200\<rparr>"
    by code_simp
  have 2: "toStringDEC \<lparr>m_pierSide = PIER_WEST, m_RAm = 0, m_DECm = 322200\<rparr> 10 = Some ''+00:30:00''"
    by code_simp
  have 3: "parseStringDEC \<lparr>m_pierSide = PIER_WEST, m_RAm = 0, m_DECm = 322200\<rparr> ''+00:30:00'' 64
       = (False, \<lparr>m_pierSide = PIER_WEST, m_RAm = 0, m_DECm = 325800\<rparr>)"
    by code_simp
  have 4: "DEC_degrees_to \<lparr>m_pierSide = PIER_WEST, m_RAm = 0, m_DECm = 322200\<rparr>
         \<lparr>m_pierSide = PIER_WEST, m_RAm = 0, m_DECm = 325800\<rparr> = 1"
    by (simp add: DEC_degrees_to_def)
  have 5: "DEC_GRANULARITY = 1 / 3600"
    by (simp add: DEC_GRANULARITY_def ARCSECOND_def ONEDEGREE_def lround_def)
  from 1 2 3 4 5 show ?thesis by simp
qed

subsection \<open>The range of the ticks after a mutation\<close>

text \<open>
  Claim C4, as the code has it. The RA setter leaves ticks in the closed range
  \<open>[0, 86400]\<close> for every value of at least \<open>-24\<close> hours, and below 86400 for every value
  in \<open>[-24, 24)\<close> that, brought into \<open>[0, 24)\<close>, is at least one second short of 24
  hours. The DEC setter leaves ticks in \<open>[0, 256 * 3600]\<close> for every value of at least
  \<open>-256\<close> degrees, and below \<open>256 * 3600\<close> for every value in \<open>[-256, 256)\<close> that,
  brought into \<open>[0, 256)\<close>, is at least one second of arc short of 256 degrees. A right
  ascension that is read leaves ticks in \<open>[0, 86400)\<close>. A declination that is read is not
  reduced: the ticks are those of 90 degrees, plus or minus the value of the text.
\<close>

theorem setters_normalize:
  "(- 24 \<le> h \<longrightarrow> 0 \<le> m_RAm (RAm_set p h) \<and> m_RAm (RAm_set p h) \<le> 86400)
   \<and> (- 24 \<le> h \<and> h < 24 \<and> fmod (h + 24) 24 \<le> 24 - 1 / 3600
        \<longrightarrow> m_RAm (RAm_set p h) < 86400)
   \<and> (- 256 \<le> d \<longrightarrow> 0 \<le> m_DECm (DECm_set p d) \<and> m_DECm (DECm_set p d) \<le> 256 * 3600)
   \<and> (- 256 \<le> d \<and> d < 256 \<and> fmod (d + 256) 256 \<le> 256 - 1 / 3600
        \<longrightarrow> m_DECm (DECm_set p d) < 256 * 3600)
   \<and> (\<not> fst (parseStringRA p buf n)
        \<longrightarrow> 0 \<le> m_RAm (snd (parseStringRA p buf n))
          \<and> m_RAm (snd (parseStringRA p buf n)) < 86400)
   \<and> (9 \<le> n \<and> 0 \<le> D \<and> D \<le> 255 \<and> 0 \<le> M \<and> M < 60 \<and> 0 \<le> S \<and> S < 60
          \<and> (sg = CHR ''+'' \<or> sg = CHR ''-'')
        \<longrightarrow> parseStringDEC p
            [sg, digit_char (D div 10), digit_char (D mod 10), CHR '':'',
             digit_char (M div 10), digit_char (M mod 10), CHR '':'',
             digit_char (S div 10), digit_char (S mod 10)] n
            = (False,
               p\<lparr>m_DECm := 90 * 3600
                   + (if m_pierSide p = PIER_EAST then - 1 else 1)
                       * (if sg = CHR ''-'' then - 1 else 1) * (D * 3600 + M * 60 + S)\<rparr>))"
proof (intro conjI impI)
  assume h: "- 24 \<le> h"
  show "0 \<le> m_RAm (RAm_set p h)" "m_RAm (RAm_set p h) \<le> 86400"
    using ticks_closed_range [of 24 86400 h] h double_constants by (simp_all add: RAm_set_def)
next
  assume h: "- 24 \<le> h \<and> h < 24 \<and> fmod (h + 24) 24 \<le> 24 - 1 / 3600"
  show "m_RAm (RAm_set p h) < 86400"
    using ticks_open_range [of 24 86400 h] h double_constants by (simp add: RAm_set_def)
next
  assume d: "- 256 \<le> d"
  show "0 \<le> m_DECm (DECm_set p d)" "m_DECm (DECm_set p d) \<le> 256 * 3600"
    using ticks_closed_range [of 256 921600 d] d double_constants by (simp_all add: DECm_set_def)
next
  assume d: "- 256 \<le> d \<and> d < 256 \<and> fmod (d + 256) 256 \<le> 256 - 1 / 3600"
  show "m_DECm (DECm_set p d) < 256 * 3600"
    using ticks_open_range [of 256 921600 d] d double_constants by (simp add: DECm_set_def)
next
  assume ok: "\<not> fst (parseStringRA p buf n)"
  then obtain h m s where scan: "sscanf_d2_d2_d2 buf = [h, m, s]" and n: "8 \<le> n"
    by (auto simp add: parseStringRA_def split: if_splits list.splits)
  have off: "(if m_pierSide p = PIER_WEST then - 12 * 3600 else 0) = - 12 * 3600
      \<or> (if m_pierSide p = PIER_WEST then - 12 * 3600 else 0) = (0 :: int)"
    by simp
  have r: "- 9 \<le> h \<and> h \<le> 99 \<and> - 9 \<le> m \<and> m \<le> 99 \<and> - 9 \<le> s \<and> s \<le> 99"
    using scan by (rule sscanf_three_values)
  have eq: "snd (parseStringRA p buf n)
      = p\<lparr>m_RAm := ((if m_pierSide p = PIER_WEST then - 12 * 3600 else 0) + 24 * 3600
                    + (h smod 24) * 3600 + m * 60 + s) smod (24 * 3600)\<rparr>"
    using parseStringRA_success [OF scan n, of p] by (simp only: snd_conv)
  show "0 \<le> m_RAm (snd (parseStringRA p buf n))" "m_RAm (snd (parseStringRA p buf n)) < 86400"
    unfolding eq using parseStringRA_ticks_range [OF _ _ _ _ _ _ off, of h m s] r by simp_all
next
  assume t: "9 \<le> n \<and> 0 \<le> D \<and> D \<le> 255 \<and> 0 \<le> M \<and> M < 60 \<and> 0 \<le> S \<and> S < 60
          \<and> (sg = CHR ''+'' \<or> sg = CHR ''-'')"
  then show "parseStringDEC p
            [sg, digit_char (D div 10), digit_char (D mod 10), CHR '':'',
             digit_char (M div 10), digit_char (M mod 10), CHR '':'',
             digit_char (S div 10), digit_char (S mod 10)] n
            = (False,
               p\<lparr>m_DECm := 90 * 3600
                   + (if m_pierSide p = PIER_EAST then - 1 else 1)
                       * (if sg = CHR ''-'' then - 1 else 1) * (D * 3600 + M * 60 + S)\<rparr>)"
    using parseStringDEC_of_text [of n D M S sg p] by blast
qed

theorem setters_normalize_witness:
  "- 24 \<le> (- 6 :: real) \<and> (- 6 :: real) < 24 \<and> fmod (- 6 + 24) 24 \<le> 24 - 1 / 3600
   \<and> 0 \<le> m_RAm (RAm_set \<lparr>m_pierSide = PIER_EAST, m_RAm = 0, m_DECm = 0\<rparr> (- 6))
   \<and> m_RAm (RAm_set \<lparr>m_pierSide = PIER_EAST, m_RAm = 0, m_DECm = 0\<rparr> (- 6)) < 86400
   \<and> - 256 \<le> (- 90 :: real) \<and> (- 90 :: real) < 256 \<and> fmod (- 90 + 256) 256 \<le> 256 - 1 / 3600
   \<and> 0 \<le> m_DECm (DECm_set \<lparr>m_pierSide = PIER_EAST, m_RAm = 0, m_DECm = 0\<rparr> (- 90))
   \<and> m_DECm (DECm_set \<lparr>m_pierSide = PIER_EAST, m_RAm = 0, m_DECm = 0\<rparr> (- 90)) < 256 * 3600
   \<and> \<not> fst (parseStringRA \<lparr>m_pierSide = PIER_EAST, m_RAm = 0, m_DECm = 0\<rparr> ''02:34:56'' 64)
   \<and> 0 \<le> m_RAm (snd (parseStringRA \<lparr>m_pierSide = PIER_EAST, m_RAm = 0, m_DECm = 0\<rparr> ''02:34:56'' 64))
   \<and> m_RAm (snd (parseStringRA \<lparr>m_pierSide = PIER_EAST, m_RAm = 0, m_DECm = 0\<rparr> ''02:34:56'' 64)) < 86400
   \<and> parseStringDEC \<lparr>m_pierSide = PIER_EAST, m_RAm = 0, m_DECm = 0\<rparr> ''-45:34:56'' 64
       = (False, \<lparr>m_pierSide = PIER_EAST, m_RAm = 0, m_DECm = 488096\<rparr>)"
proof -
  have a: "- 24 \<le> (- 6 :: real) \<and> (- 6 :: real) < 24 \<and> fmod (- 6 + 24) 24 \<le> 24 - 1 / 3600"
    by (simp add: fmod_def trunc_def)
  have b: "- 256 \<le> (- 90 :: real) \<and> (- 90 :: real) < 256 \<and> fmod (- 90 + 256) 256 \<le> 256 - 1 / 3600"
    by (simp add: fmod_def trunc_def)
  have c: "\<not> fst (parseStringRA \<lparr>m_pierSide = PIER_EAST, m_RAm = 0, m_DECm = 0\<rparr> ''02:34:56'' 64)"
    by code_simp
  show ?thesis
    using a b c
      setters_normalize [where h = "- 6" and d = "- 90"
        and p = "\<lparr>m_pierSide = PIER_EAST, m_RAm = 0, m_DECm = 0\<rparr>"
        and buf = "''02:34:56''" and n = 64 and D = 45 and M = 34 and S = 56
        and sg = "CHR ''-''"]
    by (simp add: digit_char_def char_of_def)
qed

text \<open>Below one period under zero the remainder is negative, and so are the ticks. Just
  under a full period the product rounds to the full period, or so close to its last half
  tick that the rounding to an integer gives the full period. A declination that is read
  can be below zero, or above 256 degrees. Each value given to a setter here is a
  double.\<close>

theorem setters_normalize_counterexample:
  "m_RAm (RAm_set \<lparr>m_pierSide = PIER_EAST, m_RAm = 0, m_DECm = 0\<rparr> (- 30)) = - 21600
   \<and> m_RAm (RAm_set \<lparr>m_pierSide = PIER_EAST, m_RAm = 0, m_DECm = 0\<rparr> (24 - 1 / 2 ^ 20)) = 86400
   \<and> m_RAm (RAm_set \<lparr>m_pierSide = PIER_EAST, m_RAm = 0, m_DECm = 0\<rparr>
        (- 640511947003809 / 2 ^ 62)) = 86400
   \<and> m_DECm (DECm_set \<lparr>m_pierSide = PIER_EAST, m_RAm = 0, m_DECm = 0\<rparr> (- 300)) = - 158400
   \<and> m_DECm (DECm_set \<lparr>m_pierSide = PIER_EAST, m_RAm = 0, m_DECm = 0\<rparr> (256 - 1 / 2 ^ 20))
       = 256 * 3600
   \<and> m_DECm (DECm_set \<lparr>m_pierSide = PIER_EAST, m_RAm = 0, m_DECm = 0\<rparr>
        (4503597184011323 / 2 ^ 44)) = 256 * 3600
   \<and> parseStringDEC \<lparr>m_pierSide = PIER_WEST, m_RAm = 0, m_DECm = 0\<rparr> ''-95:00:00'' 64
       = (False, \<lparr>m_pierSide = PIER_WEST, m_RAm = 0, m_DECm = - 18000\<rparr>)
   \<and> parseStringDEC \<lparr>m_pierSide = PIER_WEST, m_RAm = 0, m_DECm = 0\<rparr> ''+I5:00:00'' 64
       = (False, \<lparr>m_pierSide = PIER_WEST, m_RAm = 0, m_DECm = 1242000\<rparr>)
   \<and> to_double (- 30) = - 30 \<and> to_double (24 - 1 / 2 ^ 20) = 24 - 1 / 2 ^ 20
   \<and> to_double (- 640511947003809 / 2 ^ 62) = - 640511947003809 / 2 ^ 62
   \<and> to_double (- 300) = - 300 \<and> to_double (256 - 1 / 2 ^ 20) = 256 - 1 / 2 ^ 20
   \<and> to_double (4503597184011323 / 2 ^ 44) = 4503597184011323 / 2 ^ 44"
proof -
  have 1: "m_RAm (RAm_set \<lparr>m_pierSide = PIER_EAST, m_RAm = 0, m_DECm = 0\<rparr> (- 30)) = - 21600"
    "m_RAm (RAm_set \<lparr>m_pierSide = PIER_EAST, m_RAm = 0, m_DECm = 0\<rparr> (24 - 1 / 2 ^ 20)) = 86400"
    "m_RAm (RAm_set \<lparr>m_pierSide = PIER_EAST, m_RAm = 0, m_DECm = 0\<rparr>
        (- 640511947003809 / 2 ^ 62)) = 86400"
    by (simp_all add: RAm_set_def to_double_def binade.simps rne_def fmod_def trunc_def
        lround_def Let_def)
  have 2: "m_DECm (DECm_set \<lparr>m_pierSide = PIER_EAST, m_RAm = 0, m_DECm = 0\<rparr> (- 300)) = - 158400"
    "m_DECm (DECm_set \<lparr>m_pierSide = PIER_EAST, m_RAm = 0, m_DECm = 0\<rparr> (256 - 1 / 2 ^ 20))
       = 256 * 3600"
    "m_DECm (DECm_set \<lparr>m_pierSide = PIER_EAST, m_RAm = 0, m_DECm = 0\<rparr>
        (4503597184011323 / 2 ^ 44)) = 256 * 3600"
    by (simp_all add: DECm_set_def to_double_def binade.simps rne_def fmod_def trunc_def
        lround_def Let_def)
  have 3: "parseStringDEC \<lparr>m_pierSide = PIER_WEST, m_RAm = 0, m_DECm = 0\<rparr> ''-95:00:00'' 64
       = (False, \<lparr>m_pierSide = PIER_WEST, m_RAm = 0, m_DECm = - 18000\<rparr>)"
    "parseStringDEC \<lparr>m_pierSide = PIER_WEST, m_RAm = 0, m_DECm = 0\<rparr> ''+I5:00:00'' 64
       = (False, \<lparr>m_pierSide = PIER_WEST, m_RAm = 0, m_DECm = 1242000\<rparr>)"
    by code_simp+
  have 4: "to_double (- 30) = - 30" "to_double (24 - 1 / 2 ^ 20) = 24 - 1 / 2 ^ 20"
    "to_double (- 640511947003809 / 2 ^ 62) = - 640511947003809 / 2 ^ 62"
    "to_double (- 300) = - 300" "to_double (256 - 1 / 2 ^ 20) = 256 - 1 / 2 ^ 20"
    "to_double (4503597184011323 / 2 ^ 44) = 4503597184011323 / 2 ^ 44"
    by (simp_all add: to_double_def binade.simps rne_def Let_def)
  show ?thesis by (intro conjI 1 2 3 4)
qed

subsection \<open>The pier side UNKNOWN\<close>








subsection \<open>One tick of the adjustment\<close>

lemma granularities: "RA_GRANULARITY = 15 / 3600" "DEC_GRANULARITY = 1 / 3600"
  by (simp_all add: RA_GRANULARITY_def DEC_GRANULARITY_def ARCSECOND_def ONEDEGREE_def lround_def)

lemma choose_adjust_adjustments:
  "choose_adjust adjustments 0 d
     = (if d \<le> 7 / 600 then Some 0 else if d \<le> 1 / 6 then Some 1 else if d \<le> 5 then Some 2
        else if d \<le> 10 then Some 3 else if d \<le> 360 then Some 4 else None)"
  by (simp add: adjustments_def ARCSECOND_def ARCMINUTE_def ONEDEGREE_def)

lemma adjustments_nth_Suc_0:
  "adjustments ! Suc 0
     = \<lparr>slew_rate = '':RC#'', epsilon = 7 / 600, distance = 1 / 6, polling_interval = 200\<rparr>"
  using adjustments_nth(2) by simp

lemma choose_adjust_Some:
  assumes "choose_adjust adjustments 0 d = Some a"
  shows "a < 5"
  using assms by (auto simp add: choose_adjust_adjustments split: if_splits)

lemma slew_rate_length: "a < 5 \<Longrightarrow> length (slew_rate (adjustments ! a)) = 4"
proof -
  assume "a < 5"
  then have "a = 0 \<or> a = 1 \<or> a = 2 \<or> a = 3 \<or> a = 4" by arith
  then show ?thesis by (auto simp add: adjustments_nth adjustments_nth_Suc_0)
qed

text \<open>On the axis that drives the tick a movement is required.\<close>

lemma tier_requires_RA:
  assumes "choose_adjust adjustments 0 \<bar>d\<bar> = Some a" "0 < a \<or> RA_GRANULARITY \<le> \<bar>d\<bar>"
  shows "max (epsilon (adjustments ! a)) RA_GRANULARITY \<le> \<bar>d\<bar>"
  using assms
  by (auto simp add: choose_adjust_adjustments adjustments_nth adjustments_nth_Suc_0 granularities
      split: if_splits)

lemma tier_requires_DEC:
  assumes "choose_adjust adjustments 0 \<bar>d\<bar> = Some a" "0 < a \<or> DEC_GRANULARITY \<le> \<bar>d\<bar>"
  shows "max (epsilon (adjustments ! a)) DEC_GRANULARITY \<le> \<bar>d\<bar>"
  using assms
  by (auto simp add: choose_adjust_adjustments adjustments_nth adjustments_nth_Suc_0 granularities
      split: if_splits)

lemma adjust_RA_result:
  fixes adj d s c
  defines "ge \<equiv> max (epsilon adj) RA_GRANULARITY \<le> d"
    and "gw \<equiv> d \<le> - max (epsilon adj) RA_GRANULARITY"
  shows "\<exists>x. adjust_RA adj d (s, c) = Inr (s\<lparr>east := ge, west := gw\<rparr>, c @ x)
           \<and> length x mod 4 = 0 \<and> (east s = ge \<and> west s = gw \<longrightarrow> x = [])"
proof -
  have "0 < max (epsilon adj) RA_GRANULARITY" by (simp add: granularities max_def)
  then have excl: "\<not> (ge \<and> gw)" unfolding ge_def gw_def by arith
  show ?thesis
    using excl unfolding adjust_RA_def Let_def ge_def [symmetric] gw_def [symmetric]
    by (cases s) (auto)
qed

lemma adjust_DEC_result:
  fixes adj d s c
  defines "gs \<equiv> max (epsilon adj) DEC_GRANULARITY \<le> d"
    and "gn \<equiv> d \<le> - max (epsilon adj) DEC_GRANULARITY"
  shows "\<exists>x. adjust_DEC adj d (s, c) = Inr (s\<lparr>south := gs, north := gn\<rparr>, c @ x)
           \<and> length x mod 4 = 0 \<and> (south s = gs \<and> north s = gn \<longrightarrow> x = [])"
proof -
  have "0 < max (epsilon adj) DEC_GRANULARITY" by (simp add: granularities max_def)
  then have excl: "\<not> (gs \<and> gn)" unfolding gs_def gn_def by arith
  show ?thesis
    using excl unfolding adjust_DEC_def Let_def gs_def [symmetric] gn_def [symmetric]
    by (cases s) (auto)
qed


lemma select_rate_result:
  assumes "a < 5"
  shows "\<exists>c. select_rate a s
            = (s\<lparr>countdown :=
                   (if (case previous_adjustment s of None \<Rightarrow> False | Some prev \<Rightarrow> a < prev)
                    then MAX_CONVERGENCE_LOOPS else countdown s),
                 previous_adjustment := Some a\<rparr>, c)
           \<and> length c mod 4 = 0 \<and> (previous_adjustment s = Some a \<longrightarrow> c = [])"
  using slew_rate_length [OF assms]
  by (cases s) (auto simp add: select_rate_def)

text \<open>An adjusting tick, up to the point where the command string is complete: the state
  and the command that \<open>conclude_adjustment\<close> receives.\<close>

lemma slewing_tick_stages:
  fixes s fw
  defines "ra \<equiv> RA_degrees_to (currentPosition s) (targetPosition s)"
    and "dec \<equiv> DEC_degrees_to (currentPosition s) (targetPosition s)"
  assumes away: "RA_GRANULARITY \<le> \<bar>ra\<bar> \<or> DEC_GRANULARITY \<le> \<bar>dec\<bar>"
    and a_ra: "choose_adjust adjustments 0 \<bar>ra\<bar> = Some a_ra"
    and a_dec: "choose_adjust adjustments 0 \<bar>dec\<bar> = Some a_dec"
    and a: "a = (if a_ra < a_dec then a_dec else a_ra)"
    and E: "E = (if a_ra = a then max (epsilon (adjustments ! a)) RA_GRANULARITY \<le> ra else east s)"
    and W: "W = (if a_ra = a then ra \<le> - max (epsilon (adjustments ! a)) RA_GRANULARITY else west s)"
    and S: "S = (if a_dec = a then max (epsilon (adjustments ! a)) DEC_GRANULARITY \<le> dec else south s)"
    and N: "N = (if a_dec = a then dec \<le> - max (epsilon (adjustments ! a)) DEC_GRANULARITY else north s)"
  shows "\<exists>c. slewing_tick fw s
            = conclude_adjustment fw a
                (s\<lparr>countdown :=
                     (if (case previous_adjustment s of None \<Rightarrow> False | Some prev \<Rightarrow> a < prev)
                      then MAX_CONVERGENCE_LOOPS else countdown s),
                   previous_adjustment := Some a,
                   east := E, west := W, south := S, north := N\<rparr>, c)
           \<and> length c mod 4 = 0
           \<and> (previous_adjustment s = Some a \<and> east s = E \<and> west s = W \<and> south s = S
                \<and> north s = N \<longrightarrow> c = [])"
proof -
  have a5: "a < 5" using a a_ra a_dec choose_adjust_Some by auto
  let ?cd = "if (case previous_adjustment s of None \<Rightarrow> False | Some prev \<Rightarrow> a < prev)
             then MAX_CONVERGENCE_LOOPS else countdown s"
  let ?s0 = "s\<lparr>countdown := ?cd, previous_adjustment := Some a\<rparr>"
  obtain c0 where sel: "select_rate a s = (?s0, c0)" and c0: "length c0 mod 4 = 0"
    and c0e: "previous_adjustment s = Some a \<longrightarrow> c0 = []"
    using select_rate_result [OF a5, of s] by (elim exE conjE)
  let ?s1 = "?s0\<lparr>east := E, west := W\<rparr>"
  obtain c1 where st1: "(if a_ra = a then adjust_RA (adjustments ! a) ra (?s0, c0) else Inr (?s0, c0))
        = Inr (?s1, c1)" and c1: "length c1 mod 4 = 0"
    and c1e: "east s = E \<and> west s = W \<longrightarrow> c1 = c0"
  proof (cases "a_ra = a")
    case True
    have EW: "E = (max (epsilon (adjustments ! a)) RA_GRANULARITY \<le> ra)"
      "W = (ra \<le> - max (epsilon (adjustments ! a)) RA_GRANULARITY)"
      using True E W by simp_all
    from adjust_RA_result [of "adjustments ! a" ra ?s0 c0]
    obtain x where x: "adjust_RA (adjustments ! a) ra (?s0, c0) = Inr (?s1, c0 @ x)"
      "length x mod 4 = 0" "east ?s0 = E \<and> west ?s0 = W \<longrightarrow> x = []"
      unfolding EW by (elim exE conjE)
    show ?thesis
    proof (rule that [of "c0 @ x"])
      show "(if a_ra = a then adjust_RA (adjustments ! a) ra (?s0, c0) else Inr (?s0, c0))
              = Inr (?s1, c0 @ x)"
        using True x(1) by simp
      show "length (c0 @ x) mod 4 = 0" using c0 x(2) by (simp add: mod_eq_0_iff_dvd)
      show "east s = E \<and> west s = W \<longrightarrow> c0 @ x = c0" using x(3) by simp
    qed
  next
    case False
    have "?s1 = ?s0" using False E W by (cases s) simp
    then show ?thesis using that [of c0] False c0 by simp
  qed
  let ?s2 = "?s1\<lparr>south := S, north := N\<rparr>"
  obtain c2 where st2: "(if a_dec = a then adjust_DEC (adjustments ! a) dec (?s1, c1) else Inr (?s1, c1))
        = Inr (?s2, c2)" and c2: "length c2 mod 4 = 0"
    and c2e: "south s = S \<and> north s = N \<longrightarrow> c2 = c1"
  proof (cases "a_dec = a")
    case True
    have SN: "S = (max (epsilon (adjustments ! a)) DEC_GRANULARITY \<le> dec)"
      "N = (dec \<le> - max (epsilon (adjustments ! a)) DEC_GRANULARITY)"
      using True S N by simp_all
    from adjust_DEC_result [of "adjustments ! a" dec ?s1 c1]
    obtain x where x: "adjust_DEC (adjustments ! a) dec (?s1, c1) = Inr (?s2, c1 @ x)"
      "length x mod 4 = 0" "south ?s1 = S \<and> north ?s1 = N \<longrightarrow> x = []"
      unfolding SN by (elim exE conjE)
    show ?thesis
    proof (rule that [of "c1 @ x"])
      show "(if a_dec = a then adjust_DEC (adjustments ! a) dec (?s1, c1) else Inr (?s1, c1))
              = Inr (?s2, c1 @ x)"
        using True x(1) by simp
      show "length (c1 @ x) mod 4 = 0" using c1 x(2) by (simp add: mod_eq_0_iff_dvd)
      show "south s = S \<and> north s = N \<longrightarrow> c1 @ x = c1" using x(3) by simp
    qed
  next
    case False
    have "?s2 = ?s1" using False S N by (cases s) simp
    then show ?thesis using that [of c1] False c1 by simp
  qed
  have "slewing_tick fw s
      = (case (if a_ra = a then adjust_RA (adjustments ! a) ra (select_rate a s)
               else Inr (select_rate a s)) of
           Inl f \<Rightarrow> Inl f
         | Inr sc \<Rightarrow>
             (case (if a_dec = a then adjust_DEC (adjustments ! a) dec sc else Inr sc) of
                Inl f \<Rightarrow> Inl f
              | Inr sc \<Rightarrow> conclude_adjustment fw a sc))"
    unfolding slewing_tick_def Let_def ra_def [symmetric] dec_def [symmetric] a
    using away a_ra a_dec by simp
  also have "\<dots> = conclude_adjustment fw a (?s2, c2)"
    by (simp only: sel st1 st2 sum.case)
  finally have tick: "slewing_tick fw s = conclude_adjustment fw a (?s2, c2)" .
  have ce: "previous_adjustment s = Some a \<and> east s = E \<and> west s = W \<and> south s = S
                \<and> north s = N \<longrightarrow> c2 = []"
    using c0e c1e c2e by simp
  show ?thesis
    by (rule exI [of _ c2], intro conjI) (fact tick, fact c2, fact ce)
qed

lemma conclude_adjustment_flags:
  assumes "flags_exclusive s"
  shows "\<exists>r s'. conclude_adjustment fw a (s, c) = Inr (r, s')
           \<and> east s' = east s \<and> west s' = west s \<and> north s' = north s \<and> south s' = south s"
  using assms
  by (auto simp add: conclude_adjustment_def slew_failure_def flags_exclusive_def Let_def)

lemma conclude_adjustment_moving:
  assumes "flags_exclusive s" "moving s" "\<not> write_fails fw"
  shows "conclude_adjustment fw a (s, c)
           = Inr (if countdown s - 1 \<le> 0
                  then (False,
                        s\<lparr>trace := trace s @ (if c \<noteq> [] then [SendCmd c] else [])
                                      @ [SendCmd '':Q#'', SlewError],
                          countdown := countdown s - 1, POLLMS := 1000,
                          TrackState := SCOPE_TRACKING\<rparr>)
                  else (True,
                        s\<lparr>trace := trace s @ (if c \<noteq> [] then [SendCmd c] else []),
                          countdown := countdown s - 1,
                          POLLMS := polling_interval (adjustments ! a)\<rparr>))"
  using assms
  by (cases s) (simp add: conclude_adjustment_def slew_failure_def flags_exclusive_def moving_def Let_def)

lemma slewing_tick_flags:
  assumes "flags_exclusive s"
  shows "slewing_tick fw s = Inl AssertAdjust
       \<or> (\<exists>r s'. slewing_tick fw s = Inr (r, s') \<and> flags_exclusive s')"
proof -
  define ra where "ra = RA_degrees_to (currentPosition s) (targetPosition s)"
  define dec where "dec = DEC_degrees_to (currentPosition s) (targetPosition s)"
  show ?thesis
  proof (cases "RA_GRANULARITY \<le> \<bar>ra\<bar> \<or> DEC_GRANULARITY \<le> \<bar>dec\<bar>")
    case False
    then show ?thesis
      using assms unfolding slewing_tick_def Let_def ra_def dec_def
      by (auto simp add: flags_exclusive_def)
  next
    case away: True
    show ?thesis
    proof (cases "choose_adjust adjustments 0 \<bar>ra\<bar>")
      case None
      then show ?thesis
        using away unfolding slewing_tick_def Let_def ra_def dec_def by simp
    next
      case a_ra: (Some a_ra)
      show ?thesis
      proof (cases "choose_adjust adjustments 0 \<bar>dec\<bar>")
        case None
        then show ?thesis
          using away a_ra unfolding slewing_tick_def Let_def ra_def dec_def by simp
      next
        case a_dec: (Some a_dec)
        define a where "a = (if a_ra < a_dec then a_dec else a_ra)"
        define E where "E = (if a_ra = a then max (epsilon (adjustments ! a)) RA_GRANULARITY \<le> ra else east s)"
        define W where "W = (if a_ra = a then ra \<le> - max (epsilon (adjustments ! a)) RA_GRANULARITY else west s)"
        define S where "S = (if a_dec = a then max (epsilon (adjustments ! a)) DEC_GRANULARITY \<le> dec else south s)"
        define N where "N = (if a_dec = a then dec \<le> - max (epsilon (adjustments ! a)) DEC_GRANULARITY else north s)"
        let ?s2 = "s\<lparr>countdown :=
                     (if (case previous_adjustment s of None \<Rightarrow> False | Some prev \<Rightarrow> a < prev)
                      then MAX_CONVERGENCE_LOOPS else countdown s),
                   previous_adjustment := Some a,
                   east := E, west := W, south := S, north := N\<rparr>"
        obtain c where tick: "slewing_tick fw s = conclude_adjustment fw a (?s2, c)"
          using slewing_tick_stages [OF away [unfolded ra_def dec_def] a_ra [unfolded ra_def]
              a_dec [unfolded dec_def] a_def E_def [unfolded ra_def] W_def [unfolded ra_def]
              S_def [unfolded dec_def] N_def [unfolded dec_def], of fw]
          by (elim exE conjE)
        have pos: "0 < max (epsilon (adjustments ! a)) RA_GRANULARITY"
          "0 < max (epsilon (adjustments ! a)) DEC_GRANULARITY"
          by (simp_all add: granularities max_def)
        have "\<not> (E \<and> W)" using assms pos(1) unfolding E_def W_def flags_exclusive_def
          by (cases "a_ra = a") auto
        moreover have "\<not> (N \<and> S)" using assms pos(2) unfolding S_def N_def flags_exclusive_def
          by (cases "a_dec = a") auto
        ultimately have ex: "flags_exclusive ?s2" by (simp add: flags_exclusive_def)
        from conclude_adjustment_flags [OF ex, of fw a c]
        obtain r s' where "conclude_adjustment fw a (?s2, c) = Inr (r, s')"
          "east s' = east ?s2 \<and> west s' = west ?s2 \<and> north s' = north ?s2 \<and> south s' = south ?s2"
          by (elim exE conjE) simp
        then have "slewing_tick fw s = Inr (r, s') \<and> flags_exclusive s'"
          using tick ex by (simp add: flags_exclusive_def)
        then show ?thesis by blast
      qed
    qed
  qed
qed

lemma ReadScopeStatus_flags:
  assumes "flags_exclusive s"
  shows "ReadScopeStatus fw s = Inl AssertAdjust
       \<or> (\<exists>r s'. ReadScopeStatus fw s = Inr (r, s') \<and> flags_exclusive s')"
proof (cases "isConnected s \<and> \<not> fst (getCurrentPosition fw (currentPosition s))
              \<and> TrackState s = SCOPE_SLEWING")
  case False
  then show ?thesis
    using assms
    by (auto simp add: ReadScopeStatus_def Let_def flags_exclusive_def split: prod.splits bool.splits)
next
  case True
  obtain p where p: "getCurrentPosition fw (currentPosition s) = (False, p)"
    using True by (cases "getCurrentPosition fw (currentPosition s)") auto
  have "flags_exclusive (s\<lparr>currentPosition := p\<rparr>)"
    using assms by (simp add: flags_exclusive_def)
  from slewing_tick_flags [OF this, of fw]
  show ?thesis using True p by (simp add: ReadScopeStatus_def Let_def)
qed

lemma ticks_flags:
  assumes "flags_exclusive s"
  shows "case ticks fws s of Inl f \<Rightarrow> f = AssertAdjust | Inr (rs, s') \<Rightarrow> flags_exclusive s'"
  using assms
proof (induction fws arbitrary: s)
  case Nil
  then show ?case by simp
next
  case (Cons fw fws)
  from ReadScopeStatus_flags [OF Cons.prems, of fw]
  show ?case
  proof
    assume "ReadScopeStatus fw s = Inl AssertAdjust"
    then show ?thesis by simp
  next
    assume "\<exists>r s'. ReadScopeStatus fw s = Inr (r, s') \<and> flags_exclusive s'"
    then obtain r s' where 1: "ReadScopeStatus fw s = Inr (r, s')" and 2: "flags_exclusive s'"
      by blast
    from Cons.IH [OF 2] show ?thesis
      using 1 by (simp split: sum.splits prod.splits)
  qed
qed

subsection \<open>Opposite movements\<close>

text \<open>
  Claim C9. Both granularities are positive, so for any delta and any entry of the table
  the lower limit \<open>max epsilon granularity\<close> is positive and the two requirements of an
  axis are never both true: neither axis block fails its assertion. The movement flags
  are exclusive in a driver that has run no tick, \<^verbatim>\<open>Goto\<close> keeps them, and after a tick
  or a run of ticks from exclusive flags they are exclusive again; the only assertion a
  tick can fail is the one on the choice of the slew rate.
\<close>

theorem direction_flags_exclusive:
  "0 < RA_GRANULARITY \<and> 0 < DEC_GRANULARITY
   \<and> \<not> (max (epsilon adj) RA_GRANULARITY \<le> d \<and> d \<le> - max (epsilon adj) RA_GRANULARITY)
   \<and> \<not> (max (epsilon adj) DEC_GRANULARITY \<le> d \<and> d \<le> - max (epsilon adj) DEC_GRANULARITY)
   \<and> adjust_RA adj d sc \<noteq> Inl AssertRequirement
   \<and> adjust_DEC adj d sc \<noteq> Inl AssertRequirement
   \<and> (fresh_statics s \<longrightarrow> flags_exclusive s)
   \<and> (flags_exclusive s \<longrightarrow> flags_exclusive (snd (Goto fw ra dec s)))
   \<and> (flags_exclusive s
        \<longrightarrow> (case ReadScopeStatus fw s of
               Inl f \<Rightarrow> f = AssertAdjust
             | Inr (r, s') \<Rightarrow> flags_exclusive s'))
   \<and> (flags_exclusive s
        \<longrightarrow> (case ticks fws s of
               Inl f \<Rightarrow> f = AssertAdjust
             | Inr (rs, s') \<Rightarrow> flags_exclusive s'))"
proof -
  have g: "0 < RA_GRANULARITY" "0 < DEC_GRANULARITY" by (simp_all add: granularities)
  have e: "0 < max (epsilon adj) RA_GRANULARITY" "0 < max (epsilon adj) DEC_GRANULARITY"
    using g by (simp_all add: max_def)
  have 1: "\<not> (max (epsilon adj) RA_GRANULARITY \<le> d \<and> d \<le> - max (epsilon adj) RA_GRANULARITY)"
    using e(1) by arith
  have 2: "\<not> (max (epsilon adj) DEC_GRANULARITY \<le> d \<and> d \<le> - max (epsilon adj) DEC_GRANULARITY)"
    using e(2) by arith
  have 3: "adjust_RA adj d sc \<noteq> Inl AssertRequirement"
    using adjust_RA_result [of adj d "fst sc" "snd sc"] by auto
  have 4: "adjust_DEC adj d sc \<noteq> Inl AssertRequirement"
    using adjust_DEC_result [of adj d "fst sc" "snd sc"] by auto
  have 5: "fresh_statics s \<longrightarrow> flags_exclusive s"
    by (simp add: fresh_statics_def flags_exclusive_def)
  have 6: "flags_exclusive s \<longrightarrow> flags_exclusive (snd (Goto fw ra dec s))"
    by (simp add: Goto_def Let_def flags_exclusive_def)
  have 7: "flags_exclusive s
        \<longrightarrow> (case ReadScopeStatus fw s of
               Inl f \<Rightarrow> f = AssertAdjust
             | Inr (r, s') \<Rightarrow> flags_exclusive s')"
    using ReadScopeStatus_flags [of s fw] by auto
  have 8: "flags_exclusive s
        \<longrightarrow> (case ticks fws s of
               Inl f \<Rightarrow> f = AssertAdjust
             | Inr (rs, s') \<Rightarrow> flags_exclusive s')"
    using ticks_flags [of s fws] by blast
  from g 1 2 3 4 5 6 7 8 show ?thesis by (intro conjI)
qed

theorem direction_flags_exclusive_witness:
  "fresh_statics mount_slewing \<and> flags_exclusive mount_slewing
   \<and> (case ReadScopeStatus reading_at_zero mount_slewing of
         Inl f \<Rightarrow> f = AssertAdjust
       | Inr (r, s') \<Rightarrow> flags_exclusive s')"
proof -
  have f: "fresh_statics mount_slewing"
    by (simp add: fresh_statics_def mount_slewing_def)
  have x: "flags_exclusive mount_slewing"
    by (simp add: flags_exclusive_def mount_slewing_def)
  show ?thesis
    using f x direction_flags_exclusive [where s = mount_slewing] by blast
qed

subsection \<open>The countdown of a slew\<close>

lemma parseStringRA_pier:
  assumes "parseStringRA p b n = (False, q)" "m_pierSide p' = m_pierSide p"
  shows "q = p\<lparr>m_RAm := m_RAm q\<rparr> \<and> parseStringRA p' b n = (False, p'\<lparr>m_RAm := m_RAm q\<rparr>)"
  using assms by (auto simp add: parseStringRA_def split: if_splits list.splits)

lemma parseStringDEC_pier:
  assumes "parseStringDEC p b n = (False, q)" "m_pierSide p' = m_pierSide p"
  shows "q = p\<lparr>m_DECm := m_DECm q\<rparr> \<and> parseStringDEC p' b n = (False, p'\<lparr>m_DECm := m_DECm q\<rparr>)"
  using assms by (auto simp add: parseStringDEC_def Let_def split: if_splits)

text \<open>A reading that parses gives the same point again when it is read from that point.\<close>

lemma getCurrentPosition_again:
  assumes "getCurrentPosition fw p0 = (False, p)"
  shows "getCurrentPosition fw p = (False, p)"
proof -
  from assms obtain b where b: "reply_GR fw = Some b"
    by (cases "reply_GR fw") (auto simp add: getCurrentPosition_def)
  from assms b obtain r1 where r1: "parseStringRA p0 b 64 = (False, r1)"
    by (cases "parseStringRA p0 b 64") (auto simp add: getCurrentPosition_def split: bool.splits)
  from assms b r1 obtain b' where b': "reply_GD fw = Some b'"
    by (cases "reply_GD fw") (auto simp add: getCurrentPosition_def)
  from assms b r1 b' have r2: "parseStringDEC r1 b' 64 = (False, p)"
    by (cases "parseStringDEC r1 b' 64") (auto simp add: getCurrentPosition_def split: bool.splits)
  have e1: "r1 = p0\<lparr>m_RAm := m_RAm r1\<rparr>"
    using parseStringRA_pier [OF r1 refl] by simp
  have e2: "p = r1\<lparr>m_DECm := m_DECm p\<rparr>"
    using parseStringDEC_pier [OF r2 refl] by simp
  have p1: "m_pierSide r1 = m_pierSide p0"
    by (subst e1) simp
  have pier: "m_pierSide p = m_pierSide p0" "m_pierSide p = m_pierSide r1"
    and ram: "m_RAm p = m_RAm r1"
    using p1 by (subst e2, simp)+
  have "parseStringRA p b 64 = (False, p\<lparr>m_RAm := m_RAm r1\<rparr>)"
    using parseStringRA_pier [OF r1 pier(1)] by simp
  then have s1: "parseStringRA p b 64 = (False, p)" using ram by simp
  have "parseStringDEC p b' 64 = (False, p\<lparr>m_DECm := m_DECm p\<rparr>)"
    using parseStringDEC_pier [OF r2 pier(2)] by simp
  then have s2: "parseStringDEC p b' 64 = (False, p)" by simp
  show ?thesis by (simp add: getCurrentPosition_def b b' s1 s2)
qed


text \<open>A tick of a connected, slewing mount whose reading is off the target and whose
  command is written: the result, in full.\<close>

lemma adjusting_tick:
  fixes fw s p
  defines "ra \<equiv> RA_degrees_to p (targetPosition s)"
    and "dec \<equiv> DEC_degrees_to p (targetPosition s)"
  assumes conn: "isConnected s" and slew: "TrackState s = SCOPE_SLEWING"
    and wr: "\<not> write_fails fw"
    and read: "getCurrentPosition fw (currentPosition s) = (False, p)"
    and away: "RA_GRANULARITY \<le> \<bar>ra\<bar> \<or> DEC_GRANULARITY \<le> \<bar>dec\<bar>"
    and a_ra: "choose_adjust adjustments 0 \<bar>ra\<bar> = Some a_ra"
    and a_dec: "choose_adjust adjustments 0 \<bar>dec\<bar> = Some a_dec"
    and a: "a = (if a_ra < a_dec then a_dec else a_ra)"
    and E: "E = (if a_ra = a then max (epsilon (adjustments ! a)) RA_GRANULARITY \<le> ra else east s)"
    and W: "W = (if a_ra = a then ra \<le> - max (epsilon (adjustments ! a)) RA_GRANULARITY else west s)"
    and S: "S = (if a_dec = a then max (epsilon (adjustments ! a)) DEC_GRANULARITY \<le> dec else south s)"
    and N: "N = (if a_dec = a then dec \<le> - max (epsilon (adjustments ! a)) DEC_GRANULARITY else north s)"
    and excl: "flags_exclusive s"
    and cd: "cd = (if (case previous_adjustment s of None \<Rightarrow> False | Some prev \<Rightarrow> a < prev)
                   then MAX_CONVERGENCE_LOOPS else countdown s)"
  shows "\<exists>c. length c mod 4 = 0
           \<and> (previous_adjustment s = Some a \<and> east s = E \<and> west s = W \<and> south s = S
                \<and> north s = N \<longrightarrow> c = [])
           \<and> (E \<or> W \<or> S \<or> N) \<and> \<not> (E \<and> W) \<and> \<not> (N \<and> S)
           \<and> ReadScopeStatus fw s
               = Inr (if cd - 1 \<le> 0
                      then (False,
                            s\<lparr>currentPosition := p, countdown := cd - 1,
                              previous_adjustment := Some a,
                              east := E, west := W, south := S, north := N,
                              trace := trace s @ (if c \<noteq> [] then [SendCmd c] else [])
                                         @ [SendCmd '':Q#'', SlewError],
                              POLLMS := 1000, TrackState := SCOPE_TRACKING\<rparr>)
                      else (True,
                            s\<lparr>currentPosition := p, countdown := cd - 1,
                              previous_adjustment := Some a,
                              east := E, west := W, south := S, north := N,
                              trace := trace s @ (if c \<noteq> [] then [SendCmd c] else []),
                              POLLMS := polling_interval (adjustments ! a)\<rparr>))"
proof -
  let ?s1 = "s\<lparr>currentPosition := p\<rparr>"
  let ?s2 = "?s1\<lparr>countdown := cd, previous_adjustment := Some a,
                   east := E, west := W, south := S, north := N\<rparr>"
  have rs: "ReadScopeStatus fw s = slewing_tick fw ?s1"
    using conn slew read by (simp add: ReadScopeStatus_def)
  have away1: "RA_GRANULARITY \<le> \<bar>RA_degrees_to (currentPosition ?s1) (targetPosition ?s1)\<bar>
      \<or> DEC_GRANULARITY \<le> \<bar>DEC_degrees_to (currentPosition ?s1) (targetPosition ?s1)\<bar>"
    using away by (simp add: ra_def dec_def)
  have a_ra1: "choose_adjust adjustments 0 \<bar>RA_degrees_to (currentPosition ?s1) (targetPosition ?s1)\<bar>
      = Some a_ra"
    using a_ra by (simp add: ra_def)
  have a_dec1: "choose_adjust adjustments 0 \<bar>DEC_degrees_to (currentPosition ?s1) (targetPosition ?s1)\<bar>
      = Some a_dec"
    using a_dec by (simp add: dec_def)
  have E1: "E = (if a_ra = a
                 then max (epsilon (adjustments ! a)) RA_GRANULARITY
                        \<le> RA_degrees_to (currentPosition ?s1) (targetPosition ?s1)
                 else east ?s1)"
    and W1: "W = (if a_ra = a
                 then RA_degrees_to (currentPosition ?s1) (targetPosition ?s1)
                        \<le> - max (epsilon (adjustments ! a)) RA_GRANULARITY
                 else west ?s1)"
    and S1: "S = (if a_dec = a
                 then max (epsilon (adjustments ! a)) DEC_GRANULARITY
                        \<le> DEC_degrees_to (currentPosition ?s1) (targetPosition ?s1)
                 else south ?s1)"
    and N1: "N = (if a_dec = a
                 then DEC_degrees_to (currentPosition ?s1) (targetPosition ?s1)
                        \<le> - max (epsilon (adjustments ! a)) DEC_GRANULARITY
                 else north ?s1)"
    using E W S N by (simp_all add: ra_def dec_def)
  have cd1: "cd = (if (case previous_adjustment ?s1 of None \<Rightarrow> False | Some prev \<Rightarrow> a < prev)
                    then MAX_CONVERGENCE_LOOPS else countdown ?s1)"
    using cd by simp
  have "\<exists>c. slewing_tick fw ?s1 = conclude_adjustment fw a (?s2, c)
          \<and> length c mod 4 = 0
          \<and> (previous_adjustment s = Some a \<and> east s = E \<and> west s = W \<and> south s = S
                \<and> north s = N \<longrightarrow> c = [])"
    using slewing_tick_stages [OF away1 a_ra1 a_dec1 a E1 W1 S1 N1, of fw, folded cd1] by simp
  then obtain c where tick: "slewing_tick fw ?s1 = conclude_adjustment fw a (?s2, c)"
    and c4: "length c mod 4 = 0"
    and ce: "previous_adjustment s = Some a \<and> east s = E \<and> west s = W \<and> south s = S
                \<and> north s = N \<longrightarrow> c = []"
    by (elim exE conjE)
  have pos: "0 < max (epsilon (adjustments ! a)) RA_GRANULARITY"
    "0 < max (epsilon (adjustments ! a)) DEC_GRANULARITY"
    by (simp_all add: granularities max_def)
  have nEW: "\<not> (E \<and> W)" using excl pos(1) unfolding E W flags_exclusive_def
    by (cases "a_ra = a") auto
  have nNS: "\<not> (N \<and> S)" using excl pos(2) unfolding S N flags_exclusive_def
    by (cases "a_dec = a") auto
  have ex2: "flags_exclusive ?s2" using nEW nNS by (simp add: flags_exclusive_def)
  have a_max: "a_ra \<le> a" "a_dec \<le> a" "a = a_ra \<or> a = a_dec"
    unfolding a by auto
  have mv: "E \<or> W \<or> S \<or> N"
  proof (cases "a_ra = a")
    case True
    show ?thesis
    proof (cases "0 < a \<or> RA_GRANULARITY \<le> \<bar>ra\<bar>")
      case r: True
      have "max (epsilon (adjustments ! a)) RA_GRANULARITY \<le> \<bar>ra\<bar>"
        using tier_requires_RA [OF a_ra] r True by simp
      then have "max (epsilon (adjustments ! a)) RA_GRANULARITY \<le> ra
          \<or> ra \<le> - max (epsilon (adjustments ! a)) RA_GRANULARITY"
        by arith
      then have "E \<or> W" unfolding E W using True by simp
      then show ?thesis by blast
    next
      case False
      then have a0: "a = 0" and d: "DEC_GRANULARITY \<le> \<bar>dec\<bar>" using away by auto
      have dd: "a_dec = a" using a0 a_max(2) by arith
      have "max (epsilon (adjustments ! a)) DEC_GRANULARITY \<le> \<bar>dec\<bar>"
        using tier_requires_DEC [OF a_dec] d dd by simp
      then have "max (epsilon (adjustments ! a)) DEC_GRANULARITY \<le> dec
          \<or> dec \<le> - max (epsilon (adjustments ! a)) DEC_GRANULARITY"
        by arith
      then have "S \<or> N" unfolding S N using dd by simp
      then show ?thesis by blast
    qed
  next
    case False
    then have dd: "a_dec = a" and "0 < a" using a_max by arith+
    then have "max (epsilon (adjustments ! a)) DEC_GRANULARITY \<le> \<bar>dec\<bar>"
      using tier_requires_DEC [OF a_dec] by simp
    then have "max (epsilon (adjustments ! a)) DEC_GRANULARITY \<le> dec
        \<or> dec \<le> - max (epsilon (adjustments ! a)) DEC_GRANULARITY"
      by arith
    then have "S \<or> N" unfolding S N using dd by simp
    then show ?thesis by blast
  qed
  then have mv2: "moving ?s2" by (auto simp add: moving_def)
  have "ReadScopeStatus fw s = conclude_adjustment fw a (?s2, c)"
    using rs tick by simp
  also have "\<dots> = Inr (if cd - 1 \<le> 0
                      then (False,
                            s\<lparr>currentPosition := p, countdown := cd - 1,
                              previous_adjustment := Some a,
                              east := E, west := W, south := S, north := N,
                              trace := trace s @ (if c \<noteq> [] then [SendCmd c] else [])
                                         @ [SendCmd '':Q#'', SlewError],
                              POLLMS := 1000, TrackState := SCOPE_TRACKING\<rparr>)
                      else (True,
                            s\<lparr>currentPosition := p, countdown := cd - 1,
                              previous_adjustment := Some a,
                              east := E, west := W, south := S, north := N,
                              trace := trace s @ (if c \<noteq> [] then [SendCmd c] else []),
                              POLLMS := polling_interval (adjustments ! a)\<rparr>))"
    unfolding conclude_adjustment_moving [OF ex2 mv2 wr] by simp
  finally have res: "ReadScopeStatus fw s = Inr (if cd - 1 \<le> 0
                      then (False,
                            s\<lparr>currentPosition := p, countdown := cd - 1,
                              previous_adjustment := Some a,
                              east := E, west := W, south := S, north := N,
                              trace := trace s @ (if c \<noteq> [] then [SendCmd c] else [])
                                         @ [SendCmd '':Q#'', SlewError],
                              POLLMS := 1000, TrackState := SCOPE_TRACKING\<rparr>)
                      else (True,
                            s\<lparr>currentPosition := p, countdown := cd - 1,
                              previous_adjustment := Some a,
                              east := E, west := W, south := S, north := N,
                              trace := trace s @ (if c \<noteq> [] then [SendCmd c] else []),
                              POLLMS := polling_interval (adjustments ! a)\<rparr>))" .
  show ?thesis
    by (rule exI [of _ c], intro conjI) (fact c4, fact ce, fact mv, fact nEW, fact nNS, fact res)
qed


lemma ticks_append:
  "ticks (xs @ ys) s
     = (case ticks xs s of
          Inl f \<Rightarrow> Inl f
        | Inr (rs, s') \<Rightarrow>
            (case ticks ys s' of Inl f \<Rightarrow> Inl f | Inr (rs', s'') \<Rightarrow> Inr (rs @ rs', s'')))"
  by (induction xs arbitrary: s) (auto split: sum.splits prod.splits)

lemma stop_all_count_append:
  "stop_all_count (xs @ ys) = stop_all_count xs + stop_all_count ys"
  by (simp add: stop_all_count_def)

lemma stop_all_count_command:
  assumes "length c mod 4 = 0"
  shows "stop_all_count (if c \<noteq> [] then [SendCmd c] else []) = 0"
proof -
  have "c \<noteq> '':Q#''"
  proof
    assume "c = '':Q#''"
    then have "length c = 3" by simp
    with assms show False by simp
  qed
  then show ?thesis by (simp add: stop_all_count_def)
qed

lemma choose_adjust_in_table:
  "d \<le> 360 \<Longrightarrow> \<exists>a. choose_adjust adjustments 0 d = Some a"
  by (simp add: choose_adjust_adjustments)

lemma stop_all_count_failure: "stop_all_count [SendCmd '':Q#'', SlewError] = 1"
  by (simp add: stop_all_count_def)

text \<open>The ticks of a mount that a reading holds off its target: the first one leaves a
  state that the next ones change in the countdown only, until the countdown is 1.\<close>

lemma held_off_target:
  assumes off: "off_target fw s" and excl: "flags_exclusive s"
  shows "\<exists>base cd.
           (cd = countdown s \<or> cd = MAX_CONVERGENCE_LOOPS)
         \<and> (countdown s = MAX_CONVERGENCE_LOOPS \<longrightarrow> cd = MAX_CONVERGENCE_LOOPS)
         \<and> moving base \<and> TrackState base = SCOPE_SLEWING
         \<and> stop_all_count (trace base) = stop_all_count (trace s)
         \<and> ReadScopeStatus fw s
             = Inr (if cd - 1 \<le> 0
                    then (False,
                          base\<lparr>countdown := cd - 1,
                               trace := trace base @ [SendCmd '':Q#'', SlewError],
                               POLLMS := 1000, TrackState := SCOPE_TRACKING\<rparr>)
                    else (True, base\<lparr>countdown := cd - 1\<rparr>))
         \<and> (\<forall>c. ReadScopeStatus fw (base\<lparr>countdown := c\<rparr>)
                  = Inr (if c - 1 \<le> 0
                         then (False,
                               base\<lparr>countdown := c - 1,
                                    trace := trace base @ [SendCmd '':Q#'', SlewError],
                                    POLLMS := 1000, TrackState := SCOPE_TRACKING\<rparr>)
                         else (True, base\<lparr>countdown := c - 1\<rparr>)))"
proof -
  obtain p where read: "getCurrentPosition fw (currentPosition s) = (False, p)"
    using off by (cases "getCurrentPosition fw (currentPosition s)") (auto simp add: off_target_def)
  define ra where "ra = RA_degrees_to p (targetPosition s)"
  define dec where "dec = DEC_degrees_to p (targetPosition s)"
  have conn: "isConnected s" and slew: "TrackState s = SCOPE_SLEWING" and wr: "\<not> write_fails fw"
    using off by (simp_all add: off_target_def)
  have away: "RA_GRANULARITY \<le> \<bar>ra\<bar> \<or> DEC_GRANULARITY \<le> \<bar>dec\<bar>"
    and lim: "\<bar>ra\<bar> \<le> 360" "\<bar>dec\<bar> \<le> 360"
    using off read by (simp_all add: off_target_def Let_def ra_def dec_def)
  obtain a_ra where a_ra: "choose_adjust adjustments 0 \<bar>ra\<bar> = Some a_ra"
    using choose_adjust_in_table [OF lim(1)] by blast
  obtain a_dec where a_dec: "choose_adjust adjustments 0 \<bar>dec\<bar> = Some a_dec"
    using choose_adjust_in_table [OF lim(2)] by blast
  define a where "a = (if a_ra < a_dec then a_dec else a_ra)"
  define ge where "ge = (max (epsilon (adjustments ! a)) RA_GRANULARITY \<le> ra)"
  define gw where "gw = (ra \<le> - max (epsilon (adjustments ! a)) RA_GRANULARITY)"
  define gs where "gs = (max (epsilon (adjustments ! a)) DEC_GRANULARITY \<le> dec)"
  define gn where "gn = (dec \<le> - max (epsilon (adjustments ! a)) DEC_GRANULARITY)"
  define E where "E = (if a_ra = a then ge else east s)"
  define W where "W = (if a_ra = a then gw else west s)"
  define S where "S = (if a_dec = a then gs else south s)"
  define N where "N = (if a_dec = a then gn else north s)"
  define cd where "cd = (if (case previous_adjustment s of None \<Rightarrow> False | Some prev \<Rightarrow> a < prev)
                          then MAX_CONVERGENCE_LOOPS else countdown s)"
  define poll where "poll = polling_interval (adjustments ! a)"
  from adjusting_tick [OF conn slew wr read away [unfolded ra_def dec_def] a_ra [unfolded ra_def]
      a_dec [unfolded dec_def] a_def E_def [unfolded ge_def ra_def] W_def [unfolded gw_def ra_def]
      S_def [unfolded gs_def dec_def] N_def [unfolded gn_def dec_def] excl cd_def]
  obtain c where c4: "length c mod 4 = 0" and mv: "E \<or> W \<or> S \<or> N"
    and nEW: "\<not> (E \<and> W)" and nNS: "\<not> (N \<and> S)"
    and first: "ReadScopeStatus fw s
               = Inr (if cd - 1 \<le> 0
                      then (False,
                            s\<lparr>currentPosition := p, countdown := cd - 1,
                              previous_adjustment := Some a,
                              east := E, west := W, south := S, north := N,
                              trace := trace s @ (if c \<noteq> [] then [SendCmd c] else [])
                                         @ [SendCmd '':Q#'', SlewError],
                              POLLMS := 1000, TrackState := SCOPE_TRACKING\<rparr>)
                      else (True,
                            s\<lparr>currentPosition := p, countdown := cd - 1,
                              previous_adjustment := Some a,
                              east := E, west := W, south := S, north := N,
                              trace := trace s @ (if c \<noteq> [] then [SendCmd c] else []),
                              POLLMS := polling_interval (adjustments ! a)\<rparr>))"
    by (elim exE conjE)
  define base where "base = s\<lparr>currentPosition := p, previous_adjustment := Some a,
      east := E, west := W, south := S, north := N,
      trace := trace s @ (if c \<noteq> [] then [SendCmd c] else []), POLLMS := poll\<rparr>"
  have 1: "cd = countdown s \<or> cd = MAX_CONVERGENCE_LOOPS" by (simp add: cd_def)
  have 2: "countdown s = MAX_CONVERGENCE_LOOPS \<longrightarrow> cd = MAX_CONVERGENCE_LOOPS" by (simp add: cd_def)
  have 3: "moving base" using mv by (auto simp add: base_def moving_def)
  have 4: "TrackState base = SCOPE_SLEWING" using slew by (simp add: base_def)
  have 5: "stop_all_count (trace base) = stop_all_count (trace s)"
    using stop_all_count_command [OF c4] by (simp add: base_def stop_all_count_append)
  have 6: "ReadScopeStatus fw s
             = Inr (if cd - 1 \<le> 0
                    then (False,
                          base\<lparr>countdown := cd - 1,
                               trace := trace base @ [SendCmd '':Q#'', SlewError],
                               POLLMS := 1000, TrackState := SCOPE_TRACKING\<rparr>)
                    else (True, base\<lparr>countdown := cd - 1\<rparr>))"
    unfolding first by (simp add: base_def poll_def)
  have 7: "ReadScopeStatus fw (base\<lparr>countdown := c'\<rparr>)
                  = Inr (if c' - 1 \<le> 0
                         then (False,
                               base\<lparr>countdown := c' - 1,
                                    trace := trace base @ [SendCmd '':Q#'', SlewError],
                                    POLLMS := 1000, TrackState := SCOPE_TRACKING\<rparr>)
                         else (True, base\<lparr>countdown := c' - 1\<rparr>))" for c'
  proof -
    let ?s = "base\<lparr>countdown := c'\<rparr>"
    have conn': "isConnected ?s" and slew': "TrackState ?s = SCOPE_SLEWING"
      using conn slew by (simp_all add: base_def)
    have read': "getCurrentPosition fw (currentPosition ?s) = (False, p)"
      using getCurrentPosition_again [OF read] by (simp add: base_def)
    have tgt: "targetPosition ?s = targetPosition s" by (simp add: base_def)
    have excl': "flags_exclusive ?s" using nEW nNS by (simp add: base_def flags_exclusive_def)
    have E': "E = (if a_ra = a then max (epsilon (adjustments ! a)) RA_GRANULARITY
                                       \<le> RA_degrees_to p (targetPosition ?s) else east ?s)"
      and W': "W = (if a_ra = a then RA_degrees_to p (targetPosition ?s)
                                       \<le> - max (epsilon (adjustments ! a)) RA_GRANULARITY else west ?s)"
      and S': "S = (if a_dec = a then max (epsilon (adjustments ! a)) DEC_GRANULARITY
                                       \<le> DEC_degrees_to p (targetPosition ?s) else south ?s)"
      and N': "N = (if a_dec = a then DEC_degrees_to p (targetPosition ?s)
                                       \<le> - max (epsilon (adjustments ! a)) DEC_GRANULARITY else north ?s)"
      unfolding tgt
      by (simp_all add: base_def E_def W_def S_def N_def ge_def gw_def gs_def gn_def ra_def dec_def)
    have cd': "c' = (if (case previous_adjustment ?s of None \<Rightarrow> False | Some prev \<Rightarrow> a < prev)
                     then MAX_CONVERGENCE_LOOPS else countdown ?s)"
      by (simp add: base_def)
    from adjusting_tick [OF conn' slew' wr read' away [unfolded ra_def dec_def, folded tgt]
        a_ra [unfolded ra_def, folded tgt] a_dec [unfolded dec_def, folded tgt] a_def E' W' S' N'
        excl' cd']
    obtain x where xe: "previous_adjustment ?s = Some a \<and> east ?s = E \<and> west ?s = W
          \<and> south ?s = S \<and> north ?s = N \<longrightarrow> x = []"
      and tick: "ReadScopeStatus fw ?s
               = Inr (if c' - 1 \<le> 0
                      then (False,
                            ?s\<lparr>currentPosition := p, countdown := c' - 1,
                              previous_adjustment := Some a,
                              east := E, west := W, south := S, north := N,
                              trace := trace ?s @ (if x \<noteq> [] then [SendCmd x] else [])
                                         @ [SendCmd '':Q#'', SlewError],
                              POLLMS := 1000, TrackState := SCOPE_TRACKING\<rparr>)
                      else (True,
                            ?s\<lparr>currentPosition := p, countdown := c' - 1,
                              previous_adjustment := Some a,
                              east := E, west := W, south := S, north := N,
                              trace := trace ?s @ (if x \<noteq> [] then [SendCmd x] else []),
                              POLLMS := polling_interval (adjustments ! a)\<rparr>))"
      by (elim exE conjE)
    have x: "x = []" using xe by (simp add: base_def)
    show ?thesis unfolding tick x by (simp add: base_def poll_def)
  qed
  show ?thesis
    by (rule exI [of _ base], rule exI [of _ cd], intro conjI allI)
      (fact 1, fact 2, fact 3, fact 4, fact 5, fact 6, fact 7)
qed

text \<open>
  Claim C8. A goto that succeeds sets the countdown to 144 and the state to slewing. A tick
  of a connected, slewing mount whose reading is off the target, and whose command is
  written, ends with a movement flag set and with the countdown decremented, from its
  value or from the 144 it was reset to; when the countdown reaches zero the tick
  returns false, the state is tracking and the command that stops all axes was sent
  once, followed by the slew error; otherwise the mount keeps slewing and that command
  was not sent. From a countdown of 144, a reading that holds the mount off its target
  keeps it slewing for 143 ticks without that command, and the tick 144 fails.
\<close>

theorem convergence_countdown:
  "MAX_CONVERGENCE_LOOPS = 144
   \<and> (fst (Goto fw0 ra dec s0)
        \<longrightarrow> countdown (snd (Goto fw0 ra dec s0)) = MAX_CONVERGENCE_LOOPS
          \<and> TrackState (snd (Goto fw0 ra dec s0)) = SCOPE_SLEWING)
   \<and> (off_target fw s \<and> flags_exclusive s
        \<longrightarrow> (\<exists>r s'. ReadScopeStatus fw s = Inr (r, s') \<and> moving s'
               \<and> (countdown s' = countdown s - 1 \<or> countdown s' = MAX_CONVERGENCE_LOOPS - 1)
               \<and> (if countdown s' \<le> 0
                   then \<not> r \<and> TrackState s' = SCOPE_TRACKING
                        \<and> stop_all_count (trace s') = stop_all_count (trace s) + 1
                        \<and> (\<exists>evs. trace s' = evs @ [SendCmd '':Q#'', SlewError])
                   else r \<and> TrackState s' = SCOPE_SLEWING
                        \<and> stop_all_count (trace s') = stop_all_count (trace s))))
   \<and> (off_target fw s \<and> flags_exclusive s \<and> countdown s = MAX_CONVERGENCE_LOOPS
        \<longrightarrow> (\<forall>k<144. \<exists>s'. ticks (replicate k fw) s = Inr (replicate k True, s')
                    \<and> TrackState s' = SCOPE_SLEWING \<and> countdown s' = 144 - int k
                    \<and> stop_all_count (trace s') = stop_all_count (trace s))
          \<and> (\<exists>s'. ticks (replicate 144 fw) s = Inr (replicate 143 True @ [False], s')
                    \<and> TrackState s' = SCOPE_TRACKING \<and> countdown s' = 0
                    \<and> stop_all_count (trace s') = stop_all_count (trace s) + 1
                    \<and> (\<exists>evs. trace s' = evs @ [SendCmd '':Q#'', SlewError])))"
proof (intro conjI impI)
  show "MAX_CONVERGENCE_LOOPS = 144" by (simp add: MAX_CONVERGENCE_LOOPS_def)
next
  assume "fst (Goto fw0 ra dec s0)"
  then show "countdown (snd (Goto fw0 ra dec s0)) = MAX_CONVERGENCE_LOOPS"
    "TrackState (snd (Goto fw0 ra dec s0)) = SCOPE_SLEWING"
    by (auto simp add: Goto_def Let_def split: if_splits)
next
  assume h: "off_target fw s \<and> flags_exclusive s"
  then have off: "off_target fw s" and excl: "flags_exclusive s" by simp_all
  from held_off_target [OF off excl]
  obtain base cd where cd: "cd = countdown s \<or> cd = MAX_CONVERGENCE_LOOPS"
    and mv: "moving base" and ts: "TrackState base = SCOPE_SLEWING"
    and sc: "stop_all_count (trace base) = stop_all_count (trace s)"
    and first: "ReadScopeStatus fw s
             = Inr (if cd - 1 \<le> 0
                    then (False,
                          base\<lparr>countdown := cd - 1,
                               trace := trace base @ [SendCmd '':Q#'', SlewError],
                               POLLMS := 1000, TrackState := SCOPE_TRACKING\<rparr>)
                    else (True, base\<lparr>countdown := cd - 1\<rparr>))"
    by (elim exE conjE)
  show "\<exists>r s'. ReadScopeStatus fw s = Inr (r, s') \<and> moving s'
               \<and> (countdown s' = countdown s - 1 \<or> countdown s' = MAX_CONVERGENCE_LOOPS - 1)
               \<and> (if countdown s' \<le> 0
                   then \<not> r \<and> TrackState s' = SCOPE_TRACKING
                        \<and> stop_all_count (trace s') = stop_all_count (trace s) + 1
                        \<and> (\<exists>evs. trace s' = evs @ [SendCmd '':Q#'', SlewError])
                   else r \<and> TrackState s' = SCOPE_SLEWING
                        \<and> stop_all_count (trace s') = stop_all_count (trace s))"
  proof (cases "cd - 1 \<le> 0")
    case True
    then show ?thesis
      using first cd mv sc
      by (auto simp add: moving_def stop_all_count_append stop_all_count_failure)
  next
    case False
    then show ?thesis
      using first cd mv sc ts by (auto simp add: moving_def)
  qed
next
  assume h: "off_target fw s \<and> flags_exclusive s \<and> countdown s = MAX_CONVERGENCE_LOOPS"
  have slew: "TrackState s = SCOPE_SLEWING" using h by (simp add: off_target_def)
  have c144: "countdown s = 144" using h by (simp add: MAX_CONVERGENCE_LOOPS_def)
  have off: "off_target fw s" and excl: "flags_exclusive s" using h by simp_all
  from held_off_target [OF off excl]
  obtain base cd where cd: "countdown s = MAX_CONVERGENCE_LOOPS \<longrightarrow> cd = MAX_CONVERGENCE_LOOPS"
    and ts: "TrackState base = SCOPE_SLEWING"
    and sc: "stop_all_count (trace base) = stop_all_count (trace s)"
    and first: "ReadScopeStatus fw s
             = Inr (if cd - 1 \<le> 0
                    then (False,
                          base\<lparr>countdown := cd - 1,
                               trace := trace base @ [SendCmd '':Q#'', SlewError],
                               POLLMS := 1000, TrackState := SCOPE_TRACKING\<rparr>)
                    else (True, base\<lparr>countdown := cd - 1\<rparr>))"
    and steady: "\<forall>c. ReadScopeStatus fw (base\<lparr>countdown := c\<rparr>)
                  = Inr (if c - 1 \<le> 0
                         then (False,
                               base\<lparr>countdown := c - 1,
                                    trace := trace base @ [SendCmd '':Q#'', SlewError],
                                    POLLMS := 1000, TrackState := SCOPE_TRACKING\<rparr>)
                         else (True, base\<lparr>countdown := c - 1\<rparr>))"
    by (elim exE conjE)
  have tick1: "ReadScopeStatus fw s = Inr (True, base\<lparr>countdown := 143\<rparr>)"
    using first cd h by (simp add: MAX_CONVERGENCE_LOOPS_def)
  have run: "int n < c \<Longrightarrow>
      ticks (replicate n fw) (base\<lparr>countdown := c\<rparr>)
        = Inr (replicate n True, base\<lparr>countdown := c - int n\<rparr>)" for n c
  proof (induction n arbitrary: c)
    case 0
    then show ?case by simp
  next
    case (Suc n)
    have t: "ReadScopeStatus fw (base\<lparr>countdown := c\<rparr>) = Inr (True, base\<lparr>countdown := c - 1\<rparr>)"
      using steady Suc.prems by simp
    have "int n < c - 1" using Suc.prems by simp
    from Suc.IH [OF this] show ?case
      using t by (simp add: algebra_simps)
  qed
  have last_tick: "ReadScopeStatus fw (base\<lparr>countdown := 1\<rparr>)
      = Inr (False, base\<lparr>countdown := 0, trace := trace base @ [SendCmd '':Q#'', SlewError],
                         POLLMS := 1000, TrackState := SCOPE_TRACKING\<rparr>)"
    using steady by simp
  show "\<forall>k<144. \<exists>s'. ticks (replicate k fw) s = Inr (replicate k True, s')
                    \<and> TrackState s' = SCOPE_SLEWING \<and> countdown s' = 144 - int k
                    \<and> stop_all_count (trace s') = stop_all_count (trace s)"
  proof (intro allI impI)
    fix k :: nat
    assume k: "k < 144"
    show "\<exists>s'. ticks (replicate k fw) s = Inr (replicate k True, s')
                    \<and> TrackState s' = SCOPE_SLEWING \<and> countdown s' = 144 - int k
                    \<and> stop_all_count (trace s') = stop_all_count (trace s)"
    proof (cases k)
      case 0
      then show ?thesis using slew c144 by simp
    next
      case (Suc j)
      then have "int j < 143" using k by simp
      from run [OF this]
      have "ticks (replicate k fw) s = Inr (replicate k True, base\<lparr>countdown := 143 - int j\<rparr>)"
        using Suc tick1 by simp
      then show ?thesis using ts sc Suc by simp
    qed
  qed
  have r144: "replicate 144 fw = fw # (replicate 142 fw @ [fw])"
  proof -
    have "(144 :: nat) = Suc (142 + 1)" by simp
    then have "replicate 144 fw = replicate (Suc (142 + 1)) fw" by (rule arg_cong)
    also have "\<dots> = fw # (replicate 142 fw @ [fw])"
      by (simp only: replicate.simps replicate_add One_nat_def)
    finally show ?thesis .
  qed
  have r143: "replicate 143 True @ [False] = True # (replicate 142 True @ [False])"
  proof -
    have "(143 :: nat) = Suc 142" by simp
    then have "replicate 143 True = replicate (Suc 142) True" by (rule arg_cong)
    then show ?thesis by (simp only: replicate.simps append_Cons)
  qed
  have "int 142 < 143" by simp
  from run [OF this]
  have run142: "ticks (replicate 142 fw) (base\<lparr>countdown := 143\<rparr>)
      = Inr (replicate 142 True, base\<lparr>countdown := 1\<rparr>)"
    by simp
  have "ticks (replicate 144 fw) s
      = Inr (replicate 143 True @ [False],
             base\<lparr>countdown := 0, trace := trace base @ [SendCmd '':Q#'', SlewError],
                         POLLMS := 1000, TrackState := SCOPE_TRACKING\<rparr>)"
    unfolding r144 r143
    by (simp only: ticks.simps ticks_append tick1 run142 last_tick sum.case prod.case)
  then show "\<exists>s'. ticks (replicate 144 fw) s = Inr (replicate 143 True @ [False], s')
                    \<and> TrackState s' = SCOPE_TRACKING \<and> countdown s' = 0
                    \<and> stop_all_count (trace s') = stop_all_count (trace s) + 1
                    \<and> (\<exists>evs. trace s' = evs @ [SendCmd '':Q#'', SlewError])"
    using sc by (simp add: stop_all_count_append stop_all_count_failure)
qed


theorem convergence_countdown_witness:
  "Goto reading_at_zero 2 45 mount_at_rest = (True, mount_slewing)
   \<and> off_target reading_at_zero mount_slewing \<and> flags_exclusive mount_slewing
   \<and> countdown mount_slewing = MAX_CONVERGENCE_LOOPS
   \<and> (\<exists>s'. ticks (replicate 144 reading_at_zero) mount_slewing
               = Inr (replicate 143 True @ [False], s')
             \<and> TrackState s' = SCOPE_TRACKING \<and> countdown s' = 0
             \<and> stop_all_count (trace s') = stop_all_count (trace mount_slewing) + 1)"
proof -
  have g: "Goto reading_at_zero 2 45 mount_at_rest = (True, mount_slewing)"
    by code_simp
  have o: "off_target reading_at_zero mount_slewing"
    by code_simp
  have f: "flags_exclusive mount_slewing"
    by (simp add: flags_exclusive_def mount_slewing_def)
  have c: "countdown mount_slewing = MAX_CONVERGENCE_LOOPS"
    by (simp add: MAX_CONVERGENCE_LOOPS_def mount_slewing_def)
  show ?thesis
    using g o f c convergence_countdown [where fw = reading_at_zero and s = mount_slewing]
    by blast
qed

end
